theory Spec2Isabelle
  imports Main "HOL-Library.AList" "HOL-Library.Sublist"
begin

section \<open>Strings\<close>

text \<open>
  A JavaScript string is modelled by a \<^typ>\<open>string\<close>: one \<^typ>\<open>char\<close> per UTF-16 code
  unit, for code units below 256. The character classes below are the ones the
  regular expressions of \<^verbatim>\<open>extension.ts\<close> use, restricted to that range.
\<close>

definition is_word :: "char \<Rightarrow> bool" where
  \<comment> \<open>\<^verbatim>\<open>\w\<close>: \<^verbatim>\<open>[A-Za-z0-9_]\<close>\<close>
  "is_word c =
     (let n = (of_char c :: nat)
      in (48 \<le> n \<and> n \<le> 57) \<or> (65 \<le> n \<and> n \<le> 90) \<or> n = 95 \<or> (97 \<le> n \<and> n \<le> 122))"

definition is_space :: "char \<Rightarrow> bool" where
  \<comment> \<open>\<^verbatim>\<open>\s\<close>, and the characters \<^verbatim>\<open>String.prototype.trim\<close> strips: tab, line feed,
      vertical tab, form feed, carriage return, space, no-break space\<close>
  "is_space c = ((of_char c :: nat) \<in> {9, 10, 11, 12, 13, 32, 160})"

definition is_name_char :: "char \<Rightarrow> bool" where
  \<comment> \<open>\<^verbatim>\<open>[\w-]\<close>\<close>
  "is_name_char c = (is_word c \<or> c = CHR ''-'')"

definition trim :: "string \<Rightarrow> string" where
  "trim s = rev (dropWhile is_space (rev (dropWhile is_space s)))"

fun join :: "string \<Rightarrow> string list \<Rightarrow> string" where
  "join sep [] = []"
| "join sep [x] = x"
| "join sep (x # y # ys) = x @ sep @ join sep (y # ys)"

fun str_includes :: "string \<Rightarrow> string \<Rightarrow> bool" where
  \<comment> \<open>\<^verbatim>\<open>s.includes(sub)\<close>\<close>
  "str_includes [] sub = (sub = [])"
| "str_includes (c # cs) sub = (prefix sub (c # cs) \<or> str_includes cs sub)"

definition endsWith :: "string \<Rightarrow> string \<Rightarrow> bool" where
  \<comment> \<open>\<^verbatim>\<open>s.endsWith(suf)\<close>\<close>
  "endsWith s suf = (length suf \<le> length s \<and> drop (length s - length suf) s = suf)"

definition substring_from :: "nat \<Rightarrow> string \<Rightarrow> string" where
  \<comment> \<open>\<^verbatim>\<open>s.substring(n)\<close>\<close>
  "substring_from n s = drop n s"

fun split_on :: "char \<Rightarrow> string \<Rightarrow> string list" where
  \<comment> \<open>\<^verbatim>\<open>s.split(',')\<close> for a one-character separator\<close>
  "split_on sep [] = [[]]"
| "split_on sep (c # cs) =
     (if c = sep then [] # split_on sep cs
      else (case split_on sep cs of [] \<Rightarrow> [[c]] | w # ws \<Rightarrow> (c # w) # ws))"

section \<open>Regular expressions\<close>

text \<open>
  The patterns of the source use literals, character classes, sequencing, one
  alternation, greedy and lazy repetition of a character class, an optional group,
  capture groups and the end anchor. \<open>Star True p\<close> is the greedy \<^verbatim>\<open>p*\<close>,
  \<open>Star False p\<close> the lazy \<^verbatim>\<open>p*?\<close>.
\<close>

datatype regex =
    Eps
  | Sym "char \<Rightarrow> bool"
  | Seq regex regex
  | Alt regex regex
  | Star bool "char \<Rightarrow> bool"
  | Group nat regex
  | Eol

fun lit :: "string \<Rightarrow> regex" where
  "lit [] = Eps"
| "lit [c] = Sym (\<lambda>x. x = c)"
| "lit (c # d # ds) = Seq (Sym (\<lambda>x. x = c)) (lit (d # ds))"

fun seqs :: "regex list \<Rightarrow> regex" where
  "seqs [] = Eps"
| "seqs [r] = r"
| "seqs (r # q # qs) = Seq r (seqs (q # qs))"

definition plus :: "(char \<Rightarrow> bool) \<Rightarrow> regex" where
  \<comment> \<open>greedy \<^verbatim>\<open>p+\<close>\<close>
  "plus p = Seq (Sym p) (Star True p)"

definition opt :: "regex \<Rightarrow> regex" where
  \<comment> \<open>greedy \<^verbatim>\<open>r?\<close>, for an \<open>r\<close> that matches no empty string\<close>
  "opt r = Alt r Eps"

text \<open>
  The matcher is the backtracking matcher of ECMAScript: it runs a stack of pending
  tasks (the continuation) over the rest of the input and returns the first success in
  priority order. \<open>Close i s0\<close> ends capture group \<open>i\<close>, opened when the input was \<open>s0\<close>.
\<close>

datatype task = R regex | Close nat string

type_synonym caps = "nat \<rightharpoonup> string"

fun rsize :: "regex \<Rightarrow> nat" where
  "rsize Eps = 1"
| "rsize (Sym p) = 1"
| "rsize (Seq a b) = Suc (rsize a + rsize b)"
| "rsize (Alt a b) = Suc (rsize a + rsize b)"
| "rsize (Star g p) = 1"
| "rsize (Group i r) = Suc (Suc (rsize r))"
| "rsize Eol = 1"

fun tsize :: "task \<Rightarrow> nat" where
  "tsize (R r) = rsize r"
| "tsize (Close i s) = 1"

function run :: "task list \<Rightarrow> string \<Rightarrow> caps \<Rightarrow> (string \<times> caps) option" where
  "run [] s caps = Some (s, caps)"
| "run (R Eps # k) s caps = run k s caps"
| "run (R (Sym p) # k) s caps =
     (case s of [] \<Rightarrow> None | c # cs \<Rightarrow> if p c then run k cs caps else None)"
| "run (R (Seq a b) # k) s caps = run (R a # R b # k) s caps"
| "run (R (Alt a b) # k) s caps =
     (case run (R a # k) s caps of Some res \<Rightarrow> Some res | None \<Rightarrow> run (R b # k) s caps)"
| "run (R (Star greedy p) # k) s caps =
     (if greedy then
        (case s of
           [] \<Rightarrow> run k s caps
         | c # cs \<Rightarrow>
             if p c then
               (case run (R (Star greedy p) # k) cs caps of
                  Some res \<Rightarrow> Some res
                | None \<Rightarrow> run k s caps)
             else run k s caps)
      else
        (case run k s caps of
           Some res \<Rightarrow> Some res
         | None \<Rightarrow>
             (case s of
                [] \<Rightarrow> None
              | c # cs \<Rightarrow> if p c then run (R (Star greedy p) # k) cs caps else None)))"
| "run (R (Group i r) # k) s caps = run (R r # Close i s # k) s caps"
| "run (R Eol # k) s caps = (if s = [] then run k s caps else None)"
| "run (Close i s0 # k) s caps = run k s (caps(i \<mapsto> take (length s0 - length s) s0))"
  by pat_completeness auto
termination
  by (relation "measures [\<lambda>(k, s, caps). length s, \<lambda>(k, s, caps). sum_list (map tsize k)]") auto

text \<open>
  One match: \<open>whole\<close> is the matched text (\<^verbatim>\<open>match[0]\<close>), \<open>groups\<close> the capture
  groups (\<^verbatim>\<open>match[i]\<close>, \<open>None\<close> for \<^verbatim>\<open>undefined\<close>), \<open>rest\<close> the input after the match.
\<close>

record rmatch =
  whole :: string
  groups :: caps
  rest :: string

fun exec :: "regex \<Rightarrow> string \<Rightarrow> rmatch option" where
  \<comment> \<open>the leftmost match: the matcher is tried at every start position in turn\<close>
  "exec r s =
     (case run [R r] s Map.empty of
        Some (s', caps) \<Rightarrow>
          Some \<lparr>whole = take (length s - length s') s, groups = caps, rest = s'\<rparr>
      | None \<Rightarrow> (case s of [] \<Rightarrow> None | c # cs \<Rightarrow> exec r cs))"

definition test :: "regex \<Rightarrow> string \<Rightarrow> bool" where
  \<comment> \<open>\<^verbatim>\<open>re.test(s)\<close>\<close>
  "test r s = (exec r s \<noteq> None)"

definition match_group :: "regex \<Rightarrow> nat \<Rightarrow> string \<Rightarrow> string option" where
  \<comment> \<open>\<^verbatim>\<open>s.match(re)?.[i]\<close> for a pattern without the \<^verbatim>\<open>g\<close> flag, \<open>0 < i\<close>\<close>
  "match_group r i s = (case exec r s of None \<Rightarrow> None | Some m \<Rightarrow> groups m i)"

definition match_whole :: "regex \<Rightarrow> string \<Rightarrow> string option" where
  \<comment> \<open>\<^verbatim>\<open>s.match(re)?.[0]\<close>\<close>
  "match_whole r s = (case exec r s of None \<Rightarrow> None | Some m \<Rightarrow> Some (whole m))"

lemma run_length: "run k s caps = Some (s', caps') \<Longrightarrow> length s' \<le> length s"
proof (induction k s caps arbitrary: s' caps' rule: run.induct)
  case (3 p k s caps)
  show ?case
  proof (cases s)
    case Nil
    with 3 show ?thesis by simp
  next
    case (Cons c cs)
    with 3(2) have "p c" and "run k cs caps = Some (s', caps')"
      by (auto split: if_splits)
    with 3(1) [OF Cons] Cons show ?thesis by simp
  qed
next
  case (5 a b k s caps)
  show ?case
  proof (cases "run (R a # k) s caps")
    case None
    with 5 show ?thesis by simp
  next
    case (Some res)
    with 5 show ?thesis by simp
  qed
next
  case (6 greedy p k s caps)
  show ?case
  proof (cases greedy)
    case True
    note g = True
    show ?thesis
    proof (cases s)
      case Nil
      with "6.prems" g have "run k s caps = Some (s', caps')" by simp
      from "6.IH"(1) [OF g Nil this] show ?thesis .
    next
      case (Cons c cs)
      show ?thesis
      proof (cases "p c")
        case False
        with "6.prems" g Cons have "run k s caps = Some (s', caps')" by simp
        from "6.IH"(4) [OF g Cons False this] show ?thesis .
      next
        case True
        show ?thesis
        proof (cases "run (R (Star greedy p) # k) cs caps")
          case None
          with "6.prems" g Cons True have "run k s caps = Some (s', caps')" by simp
          from "6.IH"(3) [OF g Cons True None this] show ?thesis .
        next
          case (Some res)
          with "6.prems" g Cons True have "run (R (Star greedy p) # k) cs caps = Some (s', caps')" by simp
          from "6.IH"(2) [OF g Cons True this] Cons show ?thesis by simp
        qed
      qed
    qed
  next
    case False
    note g = False
    show ?thesis
    proof (cases "run k s caps")
      case (Some res)
      with "6.prems" g have "run k s caps = Some (s', caps')" by simp
      from "6.IH"(5) [OF g this] show ?thesis .
    next
      case None
      show ?thesis
      proof (cases s)
        case Nil
        with "6.prems" g None show ?thesis by simp
      next
        case (Cons c cs)
        with "6.prems" g None have pc: "p c" and r: "run (R (Star greedy p) # k) cs caps = Some (s', caps')"
          by (auto split: if_splits)
        from "6.IH"(6) [OF g None Cons pc r] Cons show ?thesis by simp
      qed
    qed
  qed
next
  case (1 s caps)
  then show ?case by simp
next
  case (2 k s caps)
  then show ?case by simp
next
  case (4 a b k s caps)
  then show ?case by simp
next
  case (7 i r k s caps)
  then show ?case by simp
next
  case (8 k s caps)
  show ?case
  proof (cases "s = []")
    case True
    with 8 show ?thesis by simp
  next
    case False
    with 8 show ?thesis by simp
  qed
next
  case (9 i s0 k s caps)
  from "9.prems" have "run k s (caps(i \<mapsto> take (length s0 - length s) s0)) = Some (s', caps')"
    by simp
  from "9.IH" [OF this] show ?case .
qed

lemma exec_rest_length: "exec r s = Some m \<Longrightarrow> length (rest m) \<le> length s"
proof (induction s)
  case Nil
  then show ?case by (auto split: option.splits dest: run_length)
next
  case (Cons c cs)
  then show ?case by (fastforce split: option.splits dest: run_length)
qed

lemma exec_whole_length:
  "exec r s = Some m \<Longrightarrow> whole m \<noteq> [] \<Longrightarrow> length (rest m) < length s"
proof (induction s)
  case Nil
  then show ?case by (auto split: option.splits)
next
  case (Cons c cs)
  show ?case
  proof (cases "run [R r] (c # cs) Map.empty")
    case None
    with Cons show ?thesis by fastforce
  next
    case (Some res)
    with Cons.prems show ?thesis
      by (cases res) (auto dest: run_length)
  qed
qed

text \<open>
  \<^verbatim>\<open>s.matchAll(re)\<close> for a pattern with the \<^verbatim>\<open>g\<close> flag: the search resumes where the
  previous match ended, one character further after an empty match.
\<close>

function matchAll :: "regex \<Rightarrow> string \<Rightarrow> rmatch list" where
  "matchAll r s =
     (case exec r s of
        None \<Rightarrow> []
      | Some m \<Rightarrow>
          m # (if whole m = [] then (case rest m of [] \<Rightarrow> [] | c # cs \<Rightarrow> matchAll r cs)
               else matchAll r (rest m)))"
  by pat_completeness auto
termination
proof (relation "measure (\<lambda>(r, s). length s)")
  show "wf (measure (\<lambda>(r, s). length s))" by simp
next
  fix r s m c cs
  assume "exec r s = Some m" "rest m = c # cs"
  then show "((r, cs), (r, s)) \<in> measure (\<lambda>(r, s). length s)"
    using exec_rest_length [of r s m] by simp
next
  fix r s m
  assume "exec r s = Some m" "whole m \<noteq> []"
  then show "((r, rest m), (r, s)) \<in> measure (\<lambda>(r, s). length s)"
    using exec_whole_length [of r s m] by simp
qed

declare matchAll.simps [simp del]

section \<open>The patterns of the extension\<close>

definition is_quote :: "char \<Rightarrow> bool" where
  \<comment> \<open>\<^verbatim>\<open>['"]\<close>\<close>
  "is_quote c = (c = CHR 0x27 \<or> c = CHR 0x22)"

definition CSS_VAR_PATTERN :: regex where
  \<comment> \<open>\<^verbatim>\<open>/(?:\/\*([^*]*)\*\/\s*)?([^}]*?--[\w-]+:\s*[^;]+;)/g\<close>\<close>
  "CSS_VAR_PATTERN =
     seqs [opt (seqs [lit ''/*'', Group 1 (Star True (\<lambda>c. c \<noteq> CHR ''*'')), lit ''*/'',
                      Star True is_space]),
           Group 2 (seqs [Star False (\<lambda>c. c \<noteq> CHR ''}''), lit ''--'', plus is_name_char,
                          lit '':'', Star True is_space, plus (\<lambda>c. c \<noteq> CHR '';''),
                          lit '';''])]"

definition CSSPROP_DOC_PATTERN :: regex where
  \<comment> \<open>\<^verbatim>\<open>/@cssprop\s+(--[\w-]+)\s*-\s*([^\n]+)/g\<close>\<close>
  "CSSPROP_DOC_PATTERN =
     seqs [lit ''@cssprop'', plus is_space, Group 1 (seqs [lit ''--'', plus is_name_char]),
           Star True is_space, lit ''-'', Star True is_space,
           Group 2 (plus (\<lambda>c. c \<noteq> CHR 0x0A))]"

definition PROPERTY_RULE_PATTERN :: regex where
  \<comment> \<open>\<^verbatim>\<open>/\/\*\*([^*]*?)\*\/\s*@property\s+(--[\w-]+)\s*{([^}]+)}/gs\<close>\<close>
  "PROPERTY_RULE_PATTERN =
     seqs [lit ''/**'', Group 1 (Star False (\<lambda>c. c \<noteq> CHR ''*'')), lit ''*/'',
           Star True is_space, lit ''@property'', plus is_space,
           Group 2 (seqs [lit ''--'', plus is_name_char]), Star True is_space, lit ''{'',
           Group 3 (plus (\<lambda>c. c \<noteq> CHR ''}'')), lit ''}'']"

definition SYNTAX_PATTERN :: regex where
  \<comment> \<open>\<^verbatim>\<open>/syntax:\s*['"]([^'"]+)['"]/\<close>\<close>
  "SYNTAX_PATTERN =
     seqs [lit ''syntax:'', Star True is_space, Sym is_quote,
           Group 1 (plus (\<lambda>c. \<not> is_quote c)), Sym is_quote]"

definition INHERITS_PATTERN :: regex where
  \<comment> \<open>\<^verbatim>\<open>/inherits:\s*(true|false)/\<close>\<close>
  "INHERITS_PATTERN =
     seqs [lit ''inherits:'', Star True is_space, Group 1 (Alt (lit ''true'') (lit ''false''))]"

definition INITIAL_VALUE_PATTERN :: regex where
  \<comment> \<open>\<^verbatim>\<open>/initial-value:\s*([^;]+)/\<close>\<close>
  "INITIAL_VALUE_PATTERN =
     seqs [lit ''initial-value:'', Star True is_space, Group 1 (plus (\<lambda>c. c \<noteq> CHR '';''))]"

definition NAME_PATTERN :: regex where
  \<comment> \<open>\<^verbatim>\<open>/--[\w-]+/\<close>\<close>
  "NAME_PATTERN = seqs [lit ''--'', plus is_name_char]"

definition ATTRIBUTE_PATTERN :: regex where
  \<comment> \<open>\<^verbatim>\<open>/\s--$/\<close>\<close>
  "ATTRIBUTE_PATTERN = seqs [Sym is_space, lit ''--'', Eol]"

definition importPattern :: regex where
  \<comment> \<open>\<^verbatim>\<open>/import\s+{([^}]+)}\s+from\s+['"]lutra['"];?/g\<close>\<close>
  "importPattern =
     seqs [lit ''import'', plus is_space, lit ''{'', Group 1 (plus (\<lambda>c. c \<noteq> CHR ''}'')),
           lit ''}'', plus is_space, lit ''from'', plus is_space, Sym is_quote, lit ''lutra'',
           Sym is_quote, opt (lit '';'')]"

section \<open>The symbol index\<close>

datatype source = Global | Component

record CSSVariable =
  name :: string
  description :: "string option"
  source :: source
  componentName :: "string option"
  filePath :: string

text \<open>
  \<^verbatim>\<open>this.variables\<close> is a JavaScript \<^verbatim>\<open>Map\<close>: it keeps its keys in insertion order, and
  \<^verbatim>\<open>set\<close> on a key it has replaces the value in place. That is an association list
  under \<^const>\<open>AList.update\<close>.
\<close>

type_synonym table = "(string \<times> CSSVariable) list"

definition variables_set :: "string \<Rightarrow> CSSVariable \<Rightarrow> table \<Rightarrow> table" where
  "variables_set k v vars = AList.update k v vars"

definition variables_has :: "string \<Rightarrow> table \<Rightarrow> bool" where
  "variables_has k vars = (map_of vars k \<noteq> None)"

definition variables_values :: "table \<Rightarrow> CSSVariable list" where
  "variables_values vars = map snd vars"

text \<open>
  What a rebuild reads from the editor and the file system: the three configured lists
  of glob patterns, the files \<^verbatim>\<open>vscode.workspace.findFiles\<close> returns for an include
  pattern and an optional exclude pattern, and the text \<^verbatim>\<open>fs.promises.readFile\<close>
  returns for a path (\<open>None\<close> when the read fails). \<open>relativePath\<close> is the path a
  completion shows for a file. The log channel is written to and never read; it is
  left out. A rebuild is modelled as it runs alone: \<^verbatim>\<open>updateVariables\<close> is asynchronous,
  and two rebuilds that interleave on the shared table are outside this model.
\<close>

record workspace =
  cssGlobPatterns :: "string list"
  svelteGlobPatterns :: "string list"
  excludePatterns :: "string list"
  findFiles :: "string \<Rightarrow> string option \<Rightarrow> string list"
  readFile :: "string \<Rightarrow> string option"
  relativePath :: "string \<Rightarrow> string"

definition path_basename :: "string \<Rightarrow> string \<Rightarrow> string" where
  \<comment> \<open>Node's \<^verbatim>\<open>path.basename(p, ext)\<close> on POSIX paths, from its documentation: the last
      segment of \<open>p\<close>, trailing separators ignored, without the suffix \<open>ext\<close> when the
      segment ends in it and is longer than it\<close>
  "path_basename p ext =
     (if p = ext then []
      else
        (let q = rev (dropWhile (\<lambda>c. c = CHR ''/'') (rev p));
             b = rev (takeWhile (\<lambda>c. c \<noteq> CHR ''/'') (rev q))
         in if ext \<noteq> [] \<and> endsWith b ext \<and> b \<noteq> ext then take (length b - length ext) b
            else b))"

definition filterBoolean :: "string option list \<Rightarrow> string list" where
  \<comment> \<open>\<^verbatim>\<open>.filter(Boolean)\<close> on an array of strings and \<^verbatim>\<open>null\<close>: the empty string is
      falsy too\<close>
  "filterBoolean xs =
     concat (map (\<lambda>x. case x of None \<Rightarrow> [] | Some s \<Rightarrow> if s = [] then [] else [s]) xs)"

definition field_line :: "string \<Rightarrow> string option \<Rightarrow> string option" where
  \<comment> \<open>\<^verbatim>\<open>v ? `label${v}` : null\<close>\<close>
  "field_line l v = (case v of None \<Rightarrow> None | Some x \<Rightarrow> if x = [] then None else Some (l @ x))"

definition propertyDescription :: "string \<Rightarrow> string \<Rightarrow> string" where
  "propertyDescription comment body =
     (let syntax = match_group SYNTAX_PATTERN 1 body;
          inherits = match_group INHERITS_PATTERN 1 body;
          initialValue = match_group INITIAL_VALUE_PATTERN 1 body
      in join [CHR 0x0A]
           (filterBoolean
              [Some (trim comment),
               Some [],
               Some ''```css'',
               field_line ''syntax: '' syntax,
               field_line ''inherits: '' inherits,
               field_line ''initial-value: '' initialValue,
               Some ''```'']))"

definition propertyStep :: "string \<Rightarrow> rmatch \<Rightarrow> table \<Rightarrow> table" where
  \<comment> \<open>the body of the loop over the \<^verbatim>\<open>@property\<close> matches of one file\<close>
  "propertyStep fsPath m vars =
     (let comment = the (groups m 1); nm = the (groups m 2); body = the (groups m 3)
      in variables_set nm
           \<lparr>name = nm, description = Some (propertyDescription comment body),
            source = Global, componentName = None, filePath = fsPath\<rparr> vars)"

definition plainStep :: "string \<Rightarrow> rmatch \<Rightarrow> table \<Rightarrow> table" where
  \<comment> \<open>the body of the loop over the plain declarations of one file\<close>
  "plainStep fsPath m vars =
     (let comment = groups m 1; declaration = the (groups m 2)
      in case match_whole NAME_PATTERN declaration of
           None \<Rightarrow> vars
         | Some nm \<Rightarrow>
             if nm \<noteq> [] \<and> \<not> variables_has nm vars then
               variables_set nm
                 \<lparr>name = nm, description = map_option trim comment,
                  source = Global, componentName = None, filePath = fsPath\<rparr> vars
             else vars)"

definition cssPropStep :: "string \<Rightarrow> string \<Rightarrow> rmatch \<Rightarrow> table \<Rightarrow> table" where
  \<comment> \<open>the body of the loop over the \<^verbatim>\<open>@cssprop\<close> tags of one component file\<close>
  "cssPropStep fsPath component m vars =
     (let nm = the (groups m 1); d = the (groups m 2)
      in variables_set nm
           \<lparr>name = nm, description = Some (trim d),
            source = Component, componentName = Some component, filePath = fsPath\<rparr> vars)"

definition processCssFile :: "workspace \<Rightarrow> string \<Rightarrow> table \<Rightarrow> table" where
  \<comment> \<open>the \<^verbatim>\<open>try\<close> block of the stylesheet loop; a failed read is caught and the file
      skipped\<close>
  "processCssFile ws fsPath vars =
     (case readFile ws fsPath of
        None \<Rightarrow> vars
      | Some content \<Rightarrow>
          fold (plainStep fsPath) (matchAll CSS_VAR_PATTERN content)
            (fold (propertyStep fsPath) (matchAll PROPERTY_RULE_PATTERN content) vars))"

definition processSvelteFile :: "workspace \<Rightarrow> string \<Rightarrow> table \<Rightarrow> table" where
  \<comment> \<open>the \<^verbatim>\<open>try\<close> block of the component loop\<close>
  "processSvelteFile ws fsPath vars =
     (case readFile ws fsPath of
        None \<Rightarrow> vars
      | Some content \<Rightarrow>
          fold (cssPropStep fsPath (path_basename fsPath ''.svelte''))
            (matchAll CSSPROP_DOC_PATTERN content) vars)"

definition excludeGlob :: "workspace \<Rightarrow> string" where
  \<comment> \<open>\<^verbatim>\<open>`{${excludePatterns.join(',')}}`\<close>\<close>
  "excludeGlob ws = ''{'' @ join '','' (excludePatterns ws) @ ''}''"

definition importantCssIncludes :: "workspace \<Rightarrow> string list" where
  "importantCssIncludes ws =
     (if ''**/node_modules/lutra/**/*.css'' \<in> set (cssGlobPatterns ws)
      then [''**/node_modules/lutra/**/*.css''] else [])"

definition importantSvelteIncludes :: "workspace \<Rightarrow> string list" where
  "importantSvelteIncludes ws =
     (if ''**/node_modules/lutra/**/*.svelte'' \<in> set (svelteGlobPatterns ws)
      then [''**/node_modules/lutra/**/*.svelte''] else [])"

definition cssFiles :: "workspace \<Rightarrow> string \<Rightarrow> string list" where
  \<comment> \<open>the files of one stylesheet pattern, the important includes pushed after them\<close>
  "cssFiles ws pattern =
     findFiles ws pattern (Some (excludeGlob ws))
       @ concat (map (\<lambda>important. findFiles ws important None) (importantCssIncludes ws))"

definition svelteFiles :: "workspace \<Rightarrow> string \<Rightarrow> string list" where
  "svelteFiles ws pattern =
     findFiles ws pattern (Some (excludeGlob ws))
       @ concat (map (\<lambda>important. findFiles ws important None) (importantSvelteIncludes ws))"

definition updateVariables :: "workspace \<Rightarrow> table \<Rightarrow> table" where
  \<comment> \<open>the rebuild: the table before it, the table after it\<close>
  "updateVariables ws vars0 =
     (let cleared = [];
          afterCss =
            fold (\<lambda>pattern. fold (processCssFile ws) (cssFiles ws pattern))
              (cssGlobPatterns ws) cleared
      in fold (\<lambda>pattern. fold (processSvelteFile ws) (svelteFiles ws pattern))
           (svelteGlobPatterns ws) afterCss)"

section \<open>The completion resolver\<close>

datatype CompletionItemKind = Variable

record CompletionItem =
  label :: string
  kind :: CompletionItemKind
  detail :: string
  documentation :: "string option"
  insertText :: "string option"

definition getCurrentComponentImports :: "string \<Rightarrow> string list" where
  \<comment> \<open>the members of the set it returns, in the order they are added\<close>
  "getCurrentComponentImports content =
     concat (map (\<lambda>m. map trim (split_on CHR '','' (the (groups m 1))))
       (matchAll importPattern content))"

definition isVarPattern :: "string \<Rightarrow> bool" where
  "isVarPattern linePrefix = (str_includes linePrefix ''var(-'' \<and> endsWith linePrefix ''-'')"

definition isDirectPattern :: "string \<Rightarrow> bool" where
  "isDirectPattern linePrefix = endsWith linePrefix ''--''"

definition isSvelteAttributePattern :: "string \<Rightarrow> bool" where
  "isSvelteAttributePattern linePrefix = test ATTRIBUTE_PATTERN linePrefix"

definition eligible :: "string list \<Rightarrow> CSSVariable \<Rightarrow> bool" where
  \<comment> \<open>the predicate of \<^verbatim>\<open>.filter\<close>; \<^verbatim>\<open>variable.componentName &&\<close> is false for
      \<^verbatim>\<open>undefined\<close> and for the empty string\<close>
  "eligible importedComponents variable =
     (source variable = Global \<or>
      (source variable = Component \<and>
       (case componentName variable of
          None \<Rightarrow> False
        | Some c \<Rightarrow> c \<noteq> [] \<and> c \<in> set importedComponents)))"

definition bullet :: string where
  \<comment> \<open>U+2022, as its UTF-8 bytes\<close>
  "bullet = [CHR 0xE2, CHR 0x80, CHR 0xA2]"

definition documentationOf :: "CSSVariable \<Rightarrow> string \<Rightarrow> string option" where
  "documentationOf variable rel =
     (case description variable of
        None \<Rightarrow> None
      | Some d \<Rightarrow>
          if d = [] then None
          else Some (join [CHR 0x0A] [d, [], ''```'', ''Source: '' @ rel, ''```'']))"

definition toCompletionItem :: "workspace \<Rightarrow> string \<Rightarrow> CSSVariable \<Rightarrow> CompletionItem" where
  \<comment> \<open>the function of \<^verbatim>\<open>.map\<close>\<close>
  "toCompletionItem ws linePrefix variable =
     (let rel = relativePath ws (filePath variable)
      in \<lparr>label = name variable,
          kind = Variable,
          detail =
            (if source variable = Component then
               ''Lutra '' @ bullet @ '' ''
                 @ (case componentName variable of None \<Rightarrow> ''undefined'' | Some c \<Rightarrow> c)
                 @ '' '' @ bullet @ '' '' @ rel
             else ''Lutra '' @ bullet @ '' '' @ rel),
          documentation = documentationOf variable rel,
          insertText =
            (if isVarPattern linePrefix then Some (substring_from 2 (name variable) @ '')'')
             else if isSvelteAttributePattern linePrefix
               then Some (substring_from 2 (name variable))
             else None)\<rparr>)"

definition provideCompletionItems ::
  "workspace \<Rightarrow> table \<Rightarrow> string \<Rightarrow> string \<Rightarrow> CompletionItem list" where
  \<comment> \<open>\<open>documentText\<close> is \<^verbatim>\<open>document.getText()\<close>, \<open>linePrefix\<close> the text of the cursor's
      line up to the cursor\<close>
  "provideCompletionItems ws vars documentText linePrefix =
     (if \<not> isVarPattern linePrefix \<and> \<not> isDirectPattern linePrefix
          \<and> \<not> isSvelteAttributePattern linePrefix
      then []
      else
        (let importedComponents = getCurrentComponentImports documentText
         in map (toCompletionItem ws linePrefix)
              (filter (eligible importedComponents) (variables_values vars))))"


section \<open>Vocabulary of the statements\<close>

text \<open>
  The capture groups every match of a pattern binds: the groups that lie on every path
  through it.
\<close>

fun mgroups :: "regex \<Rightarrow> nat set" where
  "mgroups Eps = {}"
| "mgroups (Sym p) = {}"
| "mgroups (Seq a b) = mgroups a \<union> mgroups b"
| "mgroups (Alt a b) = mgroups a \<inter> mgroups b"
| "mgroups (Star g p) = {}"
| "mgroups (Group i r) = insert i (mgroups r)"
| "mgroups Eol = {}"

fun tgroups :: "task \<Rightarrow> nat set" where
  "tgroups (R r) = mgroups r"
| "tgroups (Close i s) = {i}"

text \<open>
  The declarations of a name in a text, as the three loops see them: the comment and
  the body of the last \<^verbatim>\<open>@property\<close> rule for it, the description of the last
  \<^verbatim>\<open>@cssprop\<close> tag for it (each \<^verbatim>\<open>set\<close> replaces the one before), and the comment of
  the first plain declaration of it. With them, the record each loop stores.
\<close>

definition formalDeclaration :: "string \<Rightarrow> string \<Rightarrow> (string \<times> string) option" where
  "formalDeclaration content n =
     map_option (\<lambda>m. (the (groups m 1), the (groups m 3)))
       (List.find (\<lambda>m. groups m 2 = Some n) (rev (matchAll PROPERTY_RULE_PATTERN content)))"

definition plainDeclaration :: "string \<Rightarrow> string \<Rightarrow> string option option" where
  "plainDeclaration content n =
     map_option (\<lambda>m. groups m 1)
       (List.find (\<lambda>m. match_whole NAME_PATTERN (the (groups m 2)) = Some n \<and> n \<noteq> [])
          (matchAll CSS_VAR_PATTERN content))"

definition tagDeclaration :: "string \<Rightarrow> string \<Rightarrow> string option" where
  "tagDeclaration content n =
     map_option (\<lambda>m. the (groups m 2))
       (List.find (\<lambda>m. groups m 1 = Some n) (rev (matchAll CSSPROP_DOC_PATTERN content)))"

definition formalVariable :: "string \<Rightarrow> string \<Rightarrow> string \<times> string \<Rightarrow> CSSVariable" where
  "formalVariable fsPath n cb =
     \<lparr>name = n, description = Some (propertyDescription (fst cb) (snd cb)),
      source = Global, componentName = None, filePath = fsPath\<rparr>"

definition plainVariable :: "string \<Rightarrow> string \<Rightarrow> string option \<Rightarrow> CSSVariable" where
  "plainVariable fsPath n comment =
     \<lparr>name = n, description = map_option trim comment,
      source = Global, componentName = None, filePath = fsPath\<rparr>"

definition tagVariable :: "string \<Rightarrow> string \<Rightarrow> string \<Rightarrow> CSSVariable" where
  "tagVariable fsPath n d =
     \<lparr>name = n, description = Some (trim d),
      source = Component, componentName = Some (path_basename fsPath ''.svelte''),
      filePath = fsPath\<rparr>"

text \<open>The same for a file of the workspace; a file that cannot be read declares nothing.\<close>

definition formalIn :: "workspace \<Rightarrow> string \<Rightarrow> string \<Rightarrow> (string \<times> string) option" where
  "formalIn ws fsPath n =
     (case readFile ws fsPath of None \<Rightarrow> None | Some content \<Rightarrow> formalDeclaration content n)"

definition plainIn :: "workspace \<Rightarrow> string \<Rightarrow> string \<Rightarrow> string option option" where
  "plainIn ws fsPath n =
     (case readFile ws fsPath of None \<Rightarrow> None | Some content \<Rightarrow> plainDeclaration content n)"

definition tagIn :: "workspace \<Rightarrow> string \<Rightarrow> string \<Rightarrow> string option" where
  "tagIn ws fsPath n =
     (case readFile ws fsPath of None \<Rightarrow> None | Some content \<Rightarrow> tagDeclaration content n)"

text \<open>The files a rebuild processes, in the order it processes them.\<close>

definition cssJobs :: "workspace \<Rightarrow> string list" where
  "cssJobs ws = concat (map (cssFiles ws) (cssGlobPatterns ws))"

definition svelteJobs :: "workspace \<Rightarrow> string list" where
  "svelteJobs ws = concat (map (svelteFiles ws) (svelteGlobPatterns ws))"

text \<open>The workspace in which one file is absent: no search returns it.\<close>

definition withoutFile :: "string \<Rightarrow> workspace \<Rightarrow> workspace" where
  "withoutFile f ws = ws\<lparr>findFiles := \<lambda>pattern exclude. filter (\<lambda>x. x \<noteq> f) (findFiles ws pattern exclude)\<rparr>"

text \<open>Workspaces and texts the statements are tried on.\<close>

definition brand_body :: string where
  "brand_body =
     '' syntax: '' @ [CHR 0x27] @ ''<color>'' @ [CHR 0x27]
       @ ''; inherits: false; initial-value: red; ''"

definition brand_css :: string where
  "brand_css =
     ''/** Brand color */ @property --brand {'' @ brand_body @ ''}'' @ [CHR 0x0A]
       @ ''--brand: blue;''"

definition bare_css :: string where
  "bare_css = ''/** Spacing unit */ @property --gap { }''"

definition button_svelte :: string where
  "button_svelte =
     ''<!--'' @ [CHR 0x0A] @ ''@cssprop --btn-size - Controls button size'' @ [CHR 0x0A]
       @ ''@cssprop --foo - bar baz  '' @ [CHR 0x0A] @ ''-->''"

definition demo_ws :: workspace where
  "demo_ws =
     \<lparr>cssGlobPatterns = [''**/*.css''],
      svelteGlobPatterns = [''**/*.svelte''],
      excludePatterns = [''**/dist/**''],
      findFiles = (\<lambda>pattern exclude.
        if pattern = ''**/*.css'' then [''/app/a.css'', ''/app/gone.css'', ''/app/b.css'']
        else if pattern = ''**/*.svelte'' then [''/lib/Button.svelte''] else []),
      readFile = (\<lambda>fsPath.
        if fsPath = ''/app/a.css'' then Some brand_css
        else if fsPath = ''/app/b.css'' then Some bare_css
        else if fsPath = ''/lib/Button.svelte'' then Some button_svelte
        else None),
      relativePath = (\<lambda>fsPath. fsPath)\<rparr>"

definition clash_ws :: workspace where
  "clash_ws =
     \<lparr>cssGlobPatterns = [''**/*.css''],
      svelteGlobPatterns = [''**/*.svelte''],
      excludePatterns = [],
      findFiles = (\<lambda>pattern exclude.
        if pattern = ''**/*.css'' then [''/app/one.css'', ''/app/two.css'', ''/app/three.css'']
        else if pattern = ''**/*.svelte'' then [''/lib/A.svelte'', ''/lib/B.svelte''] else []),
      readFile = (\<lambda>fsPath.
        if fsPath = ''/app/one.css'' then Some ''/** A */ @property --hue { x }''
        else if fsPath = ''/app/two.css'' then Some ''/** B */ @property --hue { y }''
        else if fsPath = ''/app/three.css'' then Some ''/* plain */ --hue: 3;''
        else if fsPath = ''/lib/A.svelte'' then Some ''@cssprop --pad - one''
        else if fsPath = ''/lib/B.svelte'' then Some ''@cssprop --pad - two''
        else None),
      relativePath = (\<lambda>fsPath. fsPath)\<rparr>"

definition override_css :: string where
  "override_css =
     ''/** p */ @property --pad { x }/** h */ @property --hue { y }'' @ [CHR 0x0A]
       @ ''--pad: 1;--hue: 2;''"

definition override_ws :: workspace where
  "override_ws =
     \<lparr>cssGlobPatterns = [''**/*.css''],
      svelteGlobPatterns = [''**/*.svelte''],
      excludePatterns = [],
      findFiles = (\<lambda>pattern exclude.
        if pattern = ''**/*.css'' then [''/app/1.css'', ''/app/2.css'']
        else if pattern = ''**/*.svelte'' then [''/lib/Pad.svelte''] else []),
      readFile = (\<lambda>fsPath.
        if fsPath = ''/app/1.css'' then Some override_css
        else if fsPath = ''/app/2.css'' then Some ''/** later */ @property --hue { z }''
        else if fsPath = ''/lib/Pad.svelte'' then Some ''@cssprop --pad - from tag''
        else None),
      relativePath = (\<lambda>fsPath. fsPath)\<rparr>"

definition gap_var :: CSSVariable where
  "gap_var =
     \<lparr>name = ''--foo-bar'', description = None, source = Global, componentName = None,
      filePath = ''/app/a.css''\<rparr>"

definition button_var :: CSSVariable where
  "button_var =
     \<lparr>name = ''--btn-size'', description = Some ''Controls button size'', source = Component,
      componentName = Some ''Button'', filePath = ''/lib/Button.svelte''\<rparr>"

definition card_var :: CSSVariable where
  "card_var =
     \<lparr>name = ''--card-pad'', description = None, source = Component,
      componentName = Some ''Card'', filePath = ''/lib/Card.svelte''\<rparr>"

definition demo_table :: table where
  "demo_table = [(''--foo-bar'', gap_var), (''--btn-size'', button_var), (''--card-pad'', card_var)]"

definition named_components :: "table \<Rightarrow> bool" where
  \<comment> \<open>no component variable of the table has the empty string for its component name\<close>
  "named_components vars =
     list_all (\<lambda>v. source v = Component \<longrightarrow> componentName v \<noteq> Some []) (variables_values vars)"

section \<open>Capture groups of a match\<close>

lemma run_groups:
  "run k s caps = Some (s', caps') \<Longrightarrow> dom caps \<union> \<Union> (tgroups ` set k) \<subseteq> dom caps'"
proof (induction k s caps arbitrary: s' caps' rule: run.induct)
  case (1 s caps)
  then show ?case by simp
next
  case (2 k s caps)
  then show ?case by simp
next
  case (3 p k s caps)
  show ?case
  proof (cases s)
    case Nil
    with 3 show ?thesis by simp
  next
    case (Cons c cs)
    with "3.prems" have pc: "p c" and r: "run k cs caps = Some (s', caps')"
      by (auto split: if_splits)
    from "3.IH" [OF Cons pc r] show ?thesis by simp
  qed
next
  case (4 a b k s caps)
  from "4.prems" have "run (R a # R b # k) s caps = Some (s', caps')" by simp
  from "4.IH" [OF this] show ?case by (simp add: Un_assoc)
next
  case (5 a b k s caps)
  show ?case
  proof (cases "run (R a # k) s caps")
    case None
    with "5.prems" have "run (R b # k) s caps = Some (s', caps')" by simp
    from "5.IH"(2) [OF None this] show ?thesis by auto
  next
    case (Some res)
    with "5.prems" have "run (R a # k) s caps = Some (s', caps')" by simp
    from "5.IH"(1) [OF this] show ?thesis by auto
  qed
next
  case (6 greedy p k s caps)
  have step: "run k s caps = Some (s', caps') \<or>
    (\<exists>c cs. s = c # cs \<and> p c \<and> run (R (Star greedy p) # k) cs caps = Some (s', caps')
       \<and> (\<not> greedy \<longrightarrow> run k s caps = None))"
    using "6.prems"
    apply (subst (asm) run.simps(6))
    apply (cases s; cases greedy)
       apply (auto simp del: run.simps split: if_splits option.splits)
    done
  then show ?case
  proof
    assume r: "run k s caps = Some (s', caps')"
    show ?thesis
    proof (cases greedy)
      case False
      from "6.IH"(5) [OF False r] show ?thesis by simp
    next
      case True
      note g = True
      show ?thesis
      proof (cases s)
        case Nil
        from "6.IH"(1) [OF g Nil r] show ?thesis by simp
      next
        case (Cons c cs)
        show ?thesis
        proof (cases "p c")
          case False
          from "6.IH"(4) [OF g Cons False r] show ?thesis by simp
        next
          case True
          show ?thesis
          proof (cases "run (R (Star greedy p) # k) cs caps")
            case None
            from "6.IH"(3) [OF g Cons True None r] show ?thesis by simp
          next
            case (Some res)
            with "6.prems" g Cons True
            have r': "run (R (Star greedy p) # k) cs caps = Some (s', caps')"
              by (subst (asm) run.simps(6)) (simp del: run.simps)
            from "6.IH"(2) [OF g Cons True r'] show ?thesis by simp
          qed
        qed
      qed
    qed
  next
    assume "\<exists>c cs. s = c # cs \<and> p c \<and> run (R (Star greedy p) # k) cs caps = Some (s', caps')
       \<and> (\<not> greedy \<longrightarrow> run k s caps = None)"
    then obtain c cs where s: "s = c # cs" and pc: "p c"
      and r: "run (R (Star greedy p) # k) cs caps = Some (s', caps')"
      and n: "\<not> greedy \<longrightarrow> run k s caps = None" by blast
    show ?thesis
    proof (cases greedy)
      case True
      from "6.IH"(2) [OF True s pc r] show ?thesis by simp
    next
      case False
      with n have "run k s caps = None" by simp
      from "6.IH"(6) [OF False this s pc r] show ?thesis by simp
    qed
  qed
next
  case (7 i r k s caps)
  from "7.prems" have "run (R r # Close i s # k) s caps = Some (s', caps')" by simp
  from "7.IH" [OF this] show ?case by auto
next
  case (8 k s caps)
  show ?case
  proof (cases "s = []")
    case True
    with "8.prems" have "run k s caps = Some (s', caps')" by simp
    from "8.IH" [OF True this] show ?thesis by simp
  next
    case False
    with "8.prems" show ?thesis by simp
  qed
next
  case (9 i s0 k s caps)
  from "9.prems" have "run k s (caps(i \<mapsto> take (length s0 - length s) s0)) = Some (s', caps')"
    by simp
  from "9.IH" [OF this]
  have ih: "dom (caps(i \<mapsto> take (length s0 - length s) s0)) \<union> \<Union> (tgroups ` set k)
      \<subseteq> dom caps'" .
  have d: "dom (caps(i \<mapsto> take (length s0 - length s) s0)) = insert i (dom caps)"
    by simp
  have "insert i (dom caps) \<union> \<Union> (tgroups ` set k) \<subseteq> dom caps'"
    using ih unfolding d .
  moreover have "\<Union> (tgroups ` set (Close i s0 # k)) = insert i (\<Union> (tgroups ` set k))"
    by simp
  ultimately show ?case by blast
qed

lemma exec_groups: "exec r s = Some m \<Longrightarrow> mgroups r \<subseteq> dom (groups m)"
proof (induction s)
  case Nil
  show ?case
  proof (cases "run [R r] [] Map.empty")
    case None
    with Nil show ?thesis by simp
  next
    case (Some res)
    obtain s' caps' where res: "res = (s', caps')" by (cases res)
    with Some Nil have "groups m = caps'" by auto
    with run_groups [of "[R r]" "[]" Map.empty s' caps'] Some res show ?thesis by simp
  qed
next
  case (Cons c cs)
  show ?case
  proof (cases "run [R r] (c # cs) Map.empty")
    case None
    with Cons show ?thesis by simp
  next
    case (Some res)
    obtain s' caps' where res: "res = (s', caps')" by (cases res)
    with Some Cons.prems have "groups m = caps'" by auto
    with run_groups [of "[R r]" "c # cs" Map.empty s' caps'] Some res show ?thesis by simp
  qed
qed

lemma matchAll_groups: "m \<in> set (matchAll r s) \<Longrightarrow> mgroups r \<subseteq> dom (groups m)"
proof (induction r s rule: matchAll.induct)
  case (1 r s)
  show ?case
  proof (cases "exec r s")
    case None
    with "1.prems" show ?thesis by (simp add: matchAll.simps [of r s])
  next
    case (Some m0)
    show ?thesis
    proof (cases "m = m0")
      case True
      with exec_groups [OF Some] show ?thesis by simp
    next
      case False
      show ?thesis
      proof (cases "whole m0 = []")
        case True
        note w = True
        show ?thesis
        proof (cases "rest m0")
          case Nil
          with "1.prems" Some False w show ?thesis by (simp add: matchAll.simps [of r s])
        next
          case (Cons c cs)
          with "1.prems" Some False w have "m \<in> set (matchAll r cs)"
            by (simp add: matchAll.simps [of r s])
          from "1.IH"(1) [OF Some w Cons this] show ?thesis .
        qed
      next
        case False
        note w = False
        from "1.prems" Some \<open>m \<noteq> m0\<close> w have "m \<in> set (matchAll r (rest m0))"
          by (simp add: matchAll.simps [of r s])
        from "1.IH"(2) [OF Some w this] show ?thesis .
      qed
    qed
  qed
qed

lemma mgroups_PROPERTY: "mgroups PROPERTY_RULE_PATTERN = {1, 2, 3}"
  by (auto simp: PROPERTY_RULE_PATTERN_def plus_def)

lemma mgroups_CSSPROP: "mgroups CSSPROP_DOC_PATTERN = {1, 2}"
  by (auto simp: CSSPROP_DOC_PATTERN_def plus_def)

lemma mgroups_CSS_VAR: "mgroups CSS_VAR_PATTERN = {2}"
  by (auto simp: CSS_VAR_PATTERN_def plus_def opt_def)

lemma mgroups_import: "mgroups importPattern = {1}"
  by (auto simp: importPattern_def plus_def opt_def)

section \<open>The table after a loop\<close>

lemma find_append_iff:
  "List.find P (xs @ ys) = (case List.find P xs of None \<Rightarrow> List.find P ys | Some x \<Rightarrow> Some x)"
  by (induction xs) simp_all

lemma map_of_variables_set:
  "map_of (variables_set k v vars) n = (if n = k then Some v else map_of vars n)"
  by (simp add: variables_set_def update_conv')

lemma fold_set_last:
  "map_of (fold (\<lambda>m. variables_set (key m) (val m)) ms vars) n =
     (case List.find (\<lambda>m. key m = n) (rev ms) of
        None \<Rightarrow> map_of vars n
      | Some m \<Rightarrow> Some (val m))"
proof (induction ms arbitrary: vars)
  case Nil
  show ?case by simp
next
  case (Cons m ms)
  show ?case
  proof (cases "List.find (\<lambda>m. key m = n) (rev ms)")
    case None
    then show ?thesis
      using Cons [of "variables_set (key m) (val m) vars"]
      by (simp add: find_append_iff map_of_variables_set)
  next
    case (Some m')
    then show ?thesis
      using Cons [of "variables_set (key m) (val m) vars"]
      by (simp add: find_append_iff)
  qed
qed

lemma find_SomeD: "List.find P xs = Some x \<Longrightarrow> P x"
  by (induction xs) (auto split: if_splits)

lemma find_groups_cong:
  assumes "\<And>m. m \<in> set ms \<Longrightarrow> i \<in> dom (groups m)"
  shows "List.find (\<lambda>m. the (groups m i) = n) ms = List.find (\<lambda>m. groups m i = Some n) ms"
proof (rule find_cong [OF refl])
  fix m
  assume "m \<in> set ms"
  from assms [OF this] obtain v where "groups m i = Some v" by (auto simp: dom_def)
  then show "(the (groups m i) = n) = (groups m i = Some n)" by auto
qed

lemma propertyStep_eq:
  "propertyStep fsPath =
     (\<lambda>m. variables_set (the (groups m 2))
        (formalVariable fsPath (the (groups m 2)) (the (groups m 1), the (groups m 3))))"
  by (rule ext, rule ext) (simp add: propertyStep_def formalVariable_def Let_def)

lemma cssPropStep_eq:
  "cssPropStep fsPath (path_basename fsPath ''.svelte'') =
     (\<lambda>m. variables_set (the (groups m 1))
        (tagVariable fsPath (the (groups m 1)) (the (groups m 2))))"
  by (rule ext, rule ext) (simp add: cssPropStep_def tagVariable_def Let_def)

lemma fold_propertyStep:
  "map_of (fold (propertyStep fsPath) (matchAll PROPERTY_RULE_PATTERN content) vars) n =
     (case formalDeclaration content n of
        None \<Rightarrow> map_of vars n
      | Some cb \<Rightarrow> Some (formalVariable fsPath n cb))"
proof -
  let ?ms = "rev (matchAll PROPERTY_RULE_PATTERN content)"
  have "2 \<in> dom (groups m)" if "m \<in> set ?ms" for m
    using that matchAll_groups [of m PROPERTY_RULE_PATTERN content] mgroups_PROPERTY by auto
  then have eq: "List.find (\<lambda>m. the (groups m 2) = n) ?ms
      = List.find (\<lambda>m. groups m 2 = Some n) ?ms"
    by (rule find_groups_cong)
  show ?thesis
  proof (cases "List.find (\<lambda>m. groups m 2 = Some n) ?ms")
    case None
    with eq show ?thesis
      by (simp add: propertyStep_eq fold_set_last formalDeclaration_def)
  next
    case (Some m)
    from find_SomeD [OF Some] have "groups m 2 = Some n" .
    with Some eq show ?thesis
      by (simp add: propertyStep_eq fold_set_last formalDeclaration_def)
  qed
qed

lemma fold_cssPropStep:
  "map_of (fold (cssPropStep fsPath (path_basename fsPath ''.svelte''))
       (matchAll CSSPROP_DOC_PATTERN content) vars) n =
     (case tagDeclaration content n of
        None \<Rightarrow> map_of vars n
      | Some d \<Rightarrow> Some (tagVariable fsPath n d))"
proof -
  let ?ms = "rev (matchAll CSSPROP_DOC_PATTERN content)"
  have "1 \<in> dom (groups m)" if "m \<in> set ?ms" for m
    using that matchAll_groups [of m CSSPROP_DOC_PATTERN content] mgroups_CSSPROP by auto
  then have eq: "List.find (\<lambda>m. the (groups m 1) = n) ?ms
      = List.find (\<lambda>m. groups m 1 = Some n) ?ms"
    by (rule find_groups_cong)
  show ?thesis
  proof (cases "List.find (\<lambda>m. groups m 1 = Some n) ?ms")
    case None
    with eq show ?thesis
      by (simp add: cssPropStep_eq fold_set_last tagDeclaration_def)
  next
    case (Some m)
    from find_SomeD [OF Some] have "groups m 1 = Some n" .
    with Some eq show ?thesis
      by (simp add: cssPropStep_eq fold_set_last tagDeclaration_def)
  qed
qed

lemma map_of_plainStep:
  "map_of (plainStep fsPath m vars) n =
     (case map_of vars n of
        Some v \<Rightarrow> Some v
      | None \<Rightarrow>
          if match_whole NAME_PATTERN (the (groups m 2)) = Some n \<and> n \<noteq> []
          then Some (plainVariable fsPath n (groups m 1)) else None)"
  by (auto simp: plainStep_def plainVariable_def variables_has_def Let_def map_of_variables_set
      split: option.splits)

lemma fold_plainStep:
  "map_of (fold (plainStep fsPath) ms vars) n =
     (case map_of vars n of
        Some v \<Rightarrow> Some v
      | None \<Rightarrow>
          (case List.find (\<lambda>m. match_whole NAME_PATTERN (the (groups m 2)) = Some n \<and> n \<noteq> []) ms of
             None \<Rightarrow> None
           | Some m \<Rightarrow> Some (plainVariable fsPath n (groups m 1))))"
proof (induction ms arbitrary: vars)
  case Nil
  show ?case by (simp split: option.splits)
next
  case (Cons m ms)
  show ?case
    using Cons [of "plainStep fsPath m vars"]
    by (simp add: map_of_plainStep split: option.splits)
qed

section \<open>The table after a file\<close>

lemma map_of_processCssFile:
  "map_of (processCssFile ws fsPath vars) n =
     (case formalIn ws fsPath n of
        Some cb \<Rightarrow> Some (formalVariable fsPath n cb)
      | None \<Rightarrow>
          (case map_of vars n of
             Some v \<Rightarrow> Some v
           | None \<Rightarrow> map_option (plainVariable fsPath n) (plainIn ws fsPath n)))"
  by (simp add: processCssFile_def formalIn_def plainIn_def fold_plainStep fold_propertyStep
      plainDeclaration_def split: option.splits)

lemma map_of_processSvelteFile:
  "map_of (processSvelteFile ws fsPath vars) n =
     (case tagIn ws fsPath n of
        Some d \<Rightarrow> Some (tagVariable fsPath n d)
      | None \<Rightarrow> map_of vars n)"
  by (simp add: processSvelteFile_def tagIn_def fold_cssPropStep split: option.splits)

section \<open>The table after a rebuild\<close>

lemma fold_fold_concat: "fold (\<lambda>p. fold f (g p)) ps s = fold f (concat (map g ps)) s"
  by (induction ps arbitrary: s) simp_all

lemma updateVariables_jobs:
  "updateVariables ws vars0 =
     fold (processSvelteFile ws) (svelteJobs ws) (fold (processCssFile ws) (cssJobs ws) [])"
  by (simp add: updateVariables_def cssJobs_def svelteJobs_def fold_fold_concat Let_def)

lemma fold_processSvelteFile:
  "map_of (fold (processSvelteFile ws) js vars) n =
     (case List.find (\<lambda>f. tagIn ws f n \<noteq> None) (rev js) of
        Some f \<Rightarrow> map_option (tagVariable f n) (tagIn ws f n)
      | None \<Rightarrow> map_of vars n)"
proof (induction js arbitrary: vars)
  case Nil
  show ?case by simp
next
  case (Cons j js)
  show ?case
  proof (cases "List.find (\<lambda>f. tagIn ws f n \<noteq> None) (rev js)")
    case None
    then show ?thesis
      using Cons [of "processSvelteFile ws j vars"]
      by (auto simp: find_append_iff map_of_processSvelteFile split: option.splits)
  next
    case (Some f)
    then show ?thesis
      using Cons [of "processSvelteFile ws j vars"]
      by (simp add: find_append_iff)
  qed
qed

lemma fold_processCssFile:
  "map_of (fold (processCssFile ws) js vars) n =
     (case List.find (\<lambda>f. formalIn ws f n \<noteq> None) (rev js) of
        Some f \<Rightarrow> map_option (formalVariable f n) (formalIn ws f n)
      | None \<Rightarrow>
          (case map_of vars n of
             Some v \<Rightarrow> Some v
           | None \<Rightarrow>
               (case List.find (\<lambda>f. plainIn ws f n \<noteq> None) js of
                  Some f \<Rightarrow> map_option (plainVariable f n) (plainIn ws f n)
                | None \<Rightarrow> None)))"
proof (induction js arbitrary: vars)
  case Nil
  show ?case by (simp split: option.splits)
next
  case (Cons j js)
  show ?case
  proof (cases "List.find (\<lambda>f. formalIn ws f n \<noteq> None) (rev js)")
    case (Some f)
    then show ?thesis
      using Cons [of "processCssFile ws j vars"]
      by (simp add: find_append_iff)
  next
    case None
    show ?thesis
    proof (cases "formalIn ws j n")
      case (Some m)
      with None show ?thesis
        using Cons [of "processCssFile ws j vars"]
        by (simp add: find_append_iff map_of_processCssFile)
    next
      case fn: None
      with None show ?thesis
        using Cons [of "processCssFile ws j vars"]
        by (auto simp: find_append_iff map_of_processCssFile split: option.splits)
    qed
  qed
qed

text \<open>
  What a rebuild stores for a name: what the last component file with a tag for it
  wrote, else what the last stylesheet with an \<^verbatim>\<open>@property\<close> rule for it wrote, else
  what the first stylesheet with a plain declaration of it wrote.
\<close>

lemma map_of_updateVariables:
  "map_of (updateVariables ws vars0) n =
     (case List.find (\<lambda>f. tagIn ws f n \<noteq> None) (rev (svelteJobs ws)) of
        Some f \<Rightarrow> map_option (tagVariable f n) (tagIn ws f n)
      | None \<Rightarrow>
          (case List.find (\<lambda>f. formalIn ws f n \<noteq> None) (rev (cssJobs ws)) of
             Some f \<Rightarrow> map_option (formalVariable f n) (formalIn ws f n)
           | None \<Rightarrow>
               (case List.find (\<lambda>f. plainIn ws f n \<noteq> None) (cssJobs ws) of
                  Some f \<Rightarrow> map_option (plainVariable f n) (plainIn ws f n)
                | None \<Rightarrow> None)))"
  unfolding updateVariables_jobs fold_processSvelteFile fold_processCssFile
  by (simp split: option.splits)

section \<open>The three trigger tests\<close>

lemma str_includes_iff: "str_includes s sub \<longleftrightarrow> (\<exists>a b. s = a @ sub @ b)"
proof (induction s)
  case Nil
  show ?case by auto
next
  case (Cons c cs)
  show ?case
  proof
    assume "str_includes (c # cs) sub"
    then consider "prefix sub (c # cs)" | "str_includes cs sub" by auto
    then show "\<exists>a b. c # cs = a @ sub @ b"
    proof cases
      case 1
      then obtain b where "c # cs = sub @ b" by (auto simp: prefix_def)
      then have "c # cs = [] @ sub @ b" by simp
      then show ?thesis by blast
    next
      case 2
      with Cons obtain a b where "cs = a @ sub @ b" by blast
      then have "c # cs = (c # a) @ sub @ b" by simp
      then show ?thesis by blast
    qed
  next
    assume "\<exists>a b. c # cs = a @ sub @ b"
    then obtain a b where ab: "c # cs = a @ sub @ b" by blast
    show "str_includes (c # cs) sub"
    proof (cases a)
      case Nil
      with ab have "prefix sub (c # cs)" by (simp add: prefix_def)
      then show ?thesis by simp
    next
      case (Cons x a')
      with ab have "cs = a' @ sub @ b" by simp
      with Cons.IH have "str_includes cs sub" by blast
      then show ?thesis by simp
    qed
  qed
qed

lemma endsWith_iff: "endsWith s suf \<longleftrightarrow> (\<exists>a. s = a @ suf)"
proof
  assume "endsWith s suf"
  then have "s = take (length s - length suf) s @ suf"
    by (metis append_take_drop_id endsWith_def)
  then show "\<exists>a. s = a @ suf" ..
next
  assume "\<exists>a. s = a @ suf"
  then show "endsWith s suf" by (auto simp: endsWith_def)
qed

lemma run_ATTRIBUTE:
  "run [R ATTRIBUTE_PATTERN] s caps \<noteq> None
     \<longleftrightarrow> (\<exists>c. s = [c, CHR ''-'', CHR ''-''] \<and> is_space c)"
proof (cases s)
  case Nil
  then show ?thesis by (simp add: ATTRIBUTE_PATTERN_def)
next
  case s1: (Cons c1 t1)
  show ?thesis
  proof (cases t1)
    case Nil
    with s1 show ?thesis by (simp add: ATTRIBUTE_PATTERN_def)
  next
    case s2: (Cons c2 t2)
    show ?thesis
    proof (cases t2)
      case Nil
      with s1 s2 show ?thesis by (simp add: ATTRIBUTE_PATTERN_def)
    next
      case s3: (Cons c3 t3)
      with s1 s2 show ?thesis by (simp add: ATTRIBUTE_PATTERN_def)
    qed
  qed
qed

lemma isSvelteAttributePattern_iff:
  "isSvelteAttributePattern s \<longleftrightarrow> (\<exists>a c. s = a @ [c] @ ''--'' \<and> is_space c)"
proof (induction s)
  case Nil
  show ?case
    using run_ATTRIBUTE [of "[]" Map.empty]
    by (auto simp: isSvelteAttributePattern_def test_def split: option.splits)
next
  case (Cons x xs)
  have step: "isSvelteAttributePattern (x # xs) \<longleftrightarrow>
      run [R ATTRIBUTE_PATTERN] (x # xs) Map.empty \<noteq> None \<or> isSvelteAttributePattern xs"
    by (auto simp: isSvelteAttributePattern_def test_def split: option.splits)
  show ?case
  proof
    assume "isSvelteAttributePattern (x # xs)"
    with step consider "run [R ATTRIBUTE_PATTERN] (x # xs) Map.empty \<noteq> None"
      | "isSvelteAttributePattern xs" by blast
    then show "\<exists>a c. x # xs = a @ [c] @ ''--'' \<and> is_space c"
    proof cases
      case 1
      then obtain c where "x # xs = [c, CHR ''-'', CHR ''-'']" "is_space c"
        using run_ATTRIBUTE [of "x # xs" Map.empty] by blast
      then have "x # xs = [] @ [c] @ ''--'' \<and> is_space c" by simp
      then show ?thesis by blast
    next
      case 2
      with Cons obtain a c where "xs = a @ [c] @ ''--''" "is_space c" by blast
      then have "x # xs = (x # a) @ [c] @ ''--'' \<and> is_space c" by simp
      then show ?thesis by blast
    qed
  next
    assume "\<exists>a c. x # xs = a @ [c] @ ''--'' \<and> is_space c"
    then obtain a c where ac: "x # xs = a @ [c] @ ''--''" "is_space c" by blast
    show "isSvelteAttributePattern (x # xs)"
    proof (cases a)
      case Nil
      with ac have "x # xs = [c, CHR ''-'', CHR ''-'']" by simp
      with ac(2) have "run [R ATTRIBUTE_PATTERN] (x # xs) Map.empty \<noteq> None"
        using run_ATTRIBUTE [of "x # xs" Map.empty] by blast
      with step show ?thesis by blast
    next
      case (Cons y a')
      with ac have "xs = a' @ [c] @ ''--''" by simp
      with ac(2) Cons.IH have "isSvelteAttributePattern xs" by blast
      with step show ?thesis by blast
    qed
  qed
qed

lemma isVarPattern_iff:
  "isVarPattern s \<longleftrightarrow> (\<exists>a b. s = a @ ''var(-'' @ b) \<and> (\<exists>a. s = a @ ''-'')"
  by (simp add: isVarPattern_def str_includes_iff endsWith_iff)

lemma isDirectPattern_iff: "isDirectPattern s \<longleftrightarrow> (\<exists>a. s = a @ ''--'')"
  by (simp add: isDirectPattern_def endsWith_iff)

lemma attribute_is_direct: "isSvelteAttributePattern s \<Longrightarrow> isDirectPattern s"
proof -
  assume "isSvelteAttributePattern s"
  then obtain a c where "s = a @ [c] @ ''--''" by (auto simp: isSvelteAttributePattern_iff)
  then have "s = (a @ [c]) @ ''--''" by simp
  then show ?thesis unfolding isDirectPattern_iff by blast
qed

section \<open>The rebuild starts from the empty table and survives unreadable files\<close>

lemma fold_filter_skip:
  assumes "\<And>x v. x \<in> set xs \<Longrightarrow> \<not> P x \<Longrightarrow> f x v = v"
  shows "fold f (filter P xs) v = fold f xs v"
  using assms by (induction xs arbitrary: v) simp_all

lemma processCssFile_unreadable: "readFile ws f = None \<Longrightarrow> processCssFile ws f vars = vars"
  by (simp add: processCssFile_def)

lemma processSvelteFile_unreadable: "readFile ws f = None \<Longrightarrow> processSvelteFile ws f vars = vars"
  by (simp add: processSvelteFile_def)

lemma withoutFile_process:
  "processCssFile (withoutFile f ws) = processCssFile ws"
  "processSvelteFile (withoutFile f ws) = processSvelteFile ws"
  by (rule ext, rule ext, simp add: processCssFile_def processSvelteFile_def withoutFile_def)+

lemma withoutFile_files:
  "cssFiles (withoutFile f ws) = (\<lambda>p. filter (\<lambda>x. x \<noteq> f) (cssFiles ws p))"
  "svelteFiles (withoutFile f ws) = (\<lambda>p. filter (\<lambda>x. x \<noteq> f) (svelteFiles ws p))"
  by (rule ext, simp add: cssFiles_def svelteFiles_def withoutFile_def excludeGlob_def
      importantCssIncludes_def importantSvelteIncludes_def)+

lemma withoutFile_jobs:
  "cssJobs (withoutFile f ws) = filter (\<lambda>x. x \<noteq> f) (cssJobs ws)"
  "svelteJobs (withoutFile f ws) = filter (\<lambda>x. x \<noteq> f) (svelteJobs ws)"
proof -
  have p: "cssGlobPatterns (withoutFile f ws) = cssGlobPatterns ws"
    "svelteGlobPatterns (withoutFile f ws) = svelteGlobPatterns ws"
    by (simp_all add: withoutFile_def)
  show "cssJobs (withoutFile f ws) = filter (\<lambda>x. x \<noteq> f) (cssJobs ws)"
    by (simp add: cssJobs_def withoutFile_files p filter_concat comp_def)
  show "svelteJobs (withoutFile f ws) = filter (\<lambda>x. x \<noteq> f) (svelteJobs ws)"
    by (simp add: svelteJobs_def withoutFile_files p filter_concat comp_def)
qed


text \<open>
  C9. A file whose read fails contributes nothing to the table, and the rebuild returns
  the table it would return if the file were absent from every search result. The
  rebuild is a total function into tables: no failed read aborts it.
\<close>

theorem rebuild_skips_unreadable_file:
  assumes "readFile ws f = None"
  shows "processCssFile ws f vars = vars \<and> processSvelteFile ws f vars = vars
    \<and> updateVariables ws vars0 = updateVariables (withoutFile f ws) vars0"
proof -
  have css: "fold (processCssFile ws) (filter (\<lambda>x. x \<noteq> f) js) v = fold (processCssFile ws) js v"
    for js v
    by (rule fold_filter_skip) (simp add: processCssFile_unreadable [OF assms])
  have svelte: "fold (processSvelteFile ws) (filter (\<lambda>x. x \<noteq> f) js) v
      = fold (processSvelteFile ws) js v" for js v
    by (rule fold_filter_skip) (simp add: processSvelteFile_unreadable [OF assms])
  show ?thesis
    by (simp add: updateVariables_jobs withoutFile_process withoutFile_jobs css svelte
        processCssFile_unreadable [OF assms] processSvelteFile_unreadable [OF assms])
qed

theorem rebuild_skips_unreadable_file_witness:
  "readFile demo_ws ''/app/gone.css'' = None
   \<and> cssJobs demo_ws = [''/app/a.css'', ''/app/gone.css'', ''/app/b.css'']
   \<and> cssJobs (withoutFile ''/app/gone.css'' demo_ws) = [''/app/a.css'', ''/app/b.css'']
   \<and> updateVariables demo_ws [] = updateVariables (withoutFile ''/app/gone.css'' demo_ws) []"
proof -
  have unreadable: "readFile demo_ws ''/app/gone.css'' = None"
    by (simp add: demo_ws_def)
  have jobs: "cssJobs demo_ws = [''/app/a.css'', ''/app/gone.css'', ''/app/b.css'']"
    by (simp add: cssJobs_def cssFiles_def importantCssIncludes_def demo_ws_def)
  have jobs': "cssJobs (withoutFile ''/app/gone.css'' demo_ws) = [''/app/a.css'', ''/app/b.css'']"
    by (simp add: cssJobs_def cssFiles_def importantCssIncludes_def demo_ws_def withoutFile_def)
  from rebuild_skips_unreadable_file [OF unreadable, of "[]" "[]"] unreadable jobs jobs'
  show ?thesis by simp
qed

section \<open>The insertion text of a candidate\<close>

lemmas trigger_eval =
  isVarPattern_def isDirectPattern_def isSvelteAttributePattern_def endsWith_def test_def
  ATTRIBUTE_PATTERN_def is_space_def



text \<open>
  C10. The branch is chosen in a fixed order: the var() test first, then the attribute
  test, then nothing. So every candidate returned for a prefix that contains \<open>var(-\<close>
  anywhere and ends in a dash carries the name without its first two characters
  followed by \<open>)\<close>, also when the prefix ends in \<open>--\<close> after whitespace.
\<close>

theorem var_rule_has_priority:
  assumes "item \<in> set (provideCompletionItems ws vars doc p)"
  shows "((\<exists>a b. p = a @ ''var(-'' @ b) \<and> (\<exists>a. p = a @ ''-'') \<longrightarrow>
            insertText item = Some (drop 2 (label item) @ '')''))
    \<and> (isVarPattern p \<and> isSvelteAttributePattern p \<and> isDirectPattern p \<longrightarrow>
            insertText item = Some (drop 2 (label item) @ '')''))
    \<and> (\<not> isVarPattern p \<and> isSvelteAttributePattern p \<and> isDirectPattern p \<longrightarrow>
            insertText item = Some (drop 2 (label item)))
    \<and> (\<not> isVarPattern p \<and> \<not> isSvelteAttributePattern p \<and> isDirectPattern p \<longrightarrow>
            insertText item = None)"
proof -
  from assms obtain v where "item = toCompletionItem ws p v"
    by (auto simp: provideCompletionItems_def Let_def split: if_splits)
  then show ?thesis
    by (simp add: toCompletionItem_def substring_from_def Let_def isVarPattern_iff)
qed

theorem var_rule_has_priority_witness:
  "toCompletionItem demo_ws ''color: var(--a); --'' gap_var
     \<in> set (provideCompletionItems demo_ws demo_table [] ''color: var(--a); --'')
   \<and> isVarPattern ''color: var(--a); --''
   \<and> isSvelteAttributePattern ''color: var(--a); --''
   \<and> isDirectPattern ''color: var(--a); --''
   \<and> insertText (toCompletionItem demo_ws ''color: var(--a); --'' gap_var) = Some ''foo-bar)''"
proof -
  let ?p = "''color: var(--a); --''"
  have t: "isVarPattern ?p" "isSvelteAttributePattern ?p" "isDirectPattern ?p"
    by (simp_all add: trigger_eval)
  have e: "eligible (getCurrentComponentImports []) gap_var"
    by (simp add: eligible_def gap_var_def)
  have m: "toCompletionItem demo_ws ?p gap_var
      \<in> set (provideCompletionItems demo_ws demo_table [] ?p)"
    using t e by (simp add: provideCompletionItems_def demo_table_def variables_values_def Let_def)
  have l: "label (toCompletionItem demo_ws ?p gap_var) = ''--foo-bar''"
    by (simp add: toCompletionItem_def gap_var_def Let_def)
  from var_rule_has_priority [OF m] t l m show ?thesis by simp
qed

section \<open>When completions are offered\<close>

text \<open>
  C2. Completions are to be offered only for a prefix that ends in \<open>var(--\<close>, in \<open>--\<close>, or
  in whitespace and \<open>--\<close>, with the var() trigger holding exactly when the prefix ends in
  \<open>var(--\<close>; any other prefix gets the empty list. The comments of the code say the same
  (\<^verbatim>\<open>var(- followed by another -\<close>; \<^verbatim>\<open>Add closing parenthesis if we're in a var() function\<close>),
  but its var() test only asks that the prefix contains \<open>var(-\<close> somewhere and ends in
  one dash. The code at the inputs where it departs from that: for \<open>color: var(-\<close>,
  which ends in none of the three, candidates are returned; for \<open>color: var(--a); --\<close>,
  which does not end in \<open>var(--\<close>, the var() branch is taken and the closing parenthesis
  is appended. For \<open>margin: 1px\<close> the result is the empty list, as it should be.
\<close>

theorem var_trigger_failing_inputs:
  "provideCompletionItems demo_ws demo_table [] ''color: var(-'' \<noteq> []
   \<and> \<not> endsWith ''color: var(-'' ''var(--''
   \<and> \<not> endsWith ''color: var(-'' ''--''
   \<and> \<not> isSvelteAttributePattern ''color: var(-''
   \<and> isVarPattern ''color: var(--a); --''
   \<and> \<not> endsWith ''color: var(--a); --'' ''var(--''
   \<and> map insertText (provideCompletionItems demo_ws demo_table [] ''color: var(--a); --'')
       = [Some ''foo-bar)'']
   \<and> provideCompletionItems demo_ws demo_table [] ''margin: 1px'' = []"
proof -
  have e: "filter (eligible (getCurrentComponentImports [])) (variables_values demo_table)
      = [gap_var]"
    by (simp add: eligible_def demo_table_def variables_values_def gap_var_def button_var_def
        card_var_def getCurrentComponentImports_def matchAll.simps [of _ "[]"] importPattern_def
        plus_def)
  have v1: "isVarPattern ''color: var(-''" by (simp add: trigger_eval)
  have v2: "isVarPattern ''color: var(--a); --''" by (simp add: trigger_eval)
  have n: "\<not> endsWith ''color: var(-'' ''var(--''" "\<not> endsWith ''color: var(-'' ''--''"
    "\<not> isSvelteAttributePattern ''color: var(-''"
    "\<not> endsWith ''color: var(--a); --'' ''var(--''"
    by (simp_all add: trigger_eval)
  have m: "\<not> isVarPattern ''margin: 1px''" "\<not> isDirectPattern ''margin: 1px''"
    "\<not> isSvelteAttributePattern ''margin: 1px''"
    by (simp_all add: trigger_eval)
  have i: "insertText (toCompletionItem demo_ws ''color: var(--a); --'' gap_var)
      = Some ''foo-bar)''"
    using v2 by (simp add: toCompletionItem_def gap_var_def substring_from_def Let_def)
  show ?thesis
    using e v1 v2 n m i by (simp add: provideCompletionItems_def Let_def)
qed

section \<open>Which variables are offered\<close>

lemma set_update_subset: "set (AList.update k v al) \<subseteq> insert (k, v) (set al)"
  by (induction al) auto

lemma named_components_set:
  assumes "named_components vars" and "source v = Component \<longrightarrow> componentName v \<noteq> Some []"
  shows "named_components (variables_set k v vars)"
  using assms set_update_subset [of k v vars]
  unfolding named_components_def variables_values_def variables_set_def list_all_iff
  by fastforce

lemma fold_invariant:
  assumes "Q v" and "\<And>x v. x \<in> set xs \<Longrightarrow> Q v \<Longrightarrow> Q (f x v)"
  shows "Q (fold f xs v)"
  using assms by (induction xs arbitrary: v) simp_all

lemma named_components_propertyStep:
  "named_components vars \<Longrightarrow> named_components (propertyStep f m vars)"
  by (simp add: propertyStep_def Let_def named_components_set)

lemma named_components_plainStep:
  "named_components vars \<Longrightarrow> named_components (plainStep f m vars)"
  by (simp add: plainStep_def Let_def named_components_set split: option.splits)

lemma named_components_cssPropStep:
  "named_components vars \<Longrightarrow> c \<noteq> [] \<Longrightarrow> named_components (cssPropStep f c m vars)"
  by (simp add: cssPropStep_def Let_def named_components_set)

lemma named_components_processCssFile:
  "named_components vars \<Longrightarrow> named_components (processCssFile ws f vars)"
  unfolding processCssFile_def
  by (auto split: option.splits
      intro!: fold_invariant [where Q = named_components]
        named_components_propertyStep named_components_plainStep)

lemma named_components_processSvelteFile:
  "named_components vars \<Longrightarrow> path_basename f ''.svelte'' \<noteq> [] \<Longrightarrow>
     named_components (processSvelteFile ws f vars)"
  unfolding processSvelteFile_def
  by (auto split: option.splits
      intro!: fold_invariant [where Q = named_components] named_components_cssPropStep)

text \<open>
  A component name is the base name of a component file. When no component file of the
  workspace has an empty base name, no rebuilt table has an empty component name.
\<close>

lemma named_components_updateVariables:
  assumes "\<And>f. f \<in> set (svelteJobs ws) \<Longrightarrow> path_basename f ''.svelte'' \<noteq> []"
  shows "named_components (updateVariables ws vars0)"
proof -
  have "named_components []"
    by (simp add: named_components_def variables_values_def)
  then have "named_components (fold (processCssFile ws) (cssJobs ws) [])"
    by (rule fold_invariant) (rule named_components_processCssFile)
  then show ?thesis
    unfolding updateVariables_jobs
    by (rule fold_invariant) (simp add: named_components_processSvelteFile assms)
qed

text \<open>
  C4. For every table whose component variables carry a non-empty component name (every
  rebuilt table does, a component name being the base name of a file) and every import
  set \<open>S\<close>, the variables that pass the filter are the variables of origin Global and
  the variables of origin Component whose component name is in \<open>S\<close>; the others are left
  out, and the labels of the candidates returned on a trigger are the names of exactly
  these variables, in table order.
\<close>

theorem completion_filter_law:
  assumes "named_components vars"
  shows "set (filter (eligible S) (variables_values vars)) =
        {v \<in> set (variables_values vars). source v = Global}
      \<union> {v \<in> set (variables_values vars).
           source v = Component \<and> (\<exists>c \<in> set S. componentName v = Some c)}
    \<and> (isVarPattern p \<or> isDirectPattern p \<or> isSvelteAttributePattern p \<longrightarrow>
         map label (provideCompletionItems ws vars doc p) =
         map name (filter (\<lambda>v. source v = Global \<or> source v = Component
              \<and> (\<exists>c \<in> set (getCurrentComponentImports doc). componentName v = Some c))
            (variables_values vars)))"
proof -
  have e: "eligible S' v \<longleftrightarrow> source v = Global
      \<or> source v = Component \<and> (\<exists>c \<in> set S'. componentName v = Some c)"
    if "v \<in> set (variables_values vars)" for v S'
    using that assms
    by (auto simp: eligible_def named_components_def list_all_iff split: option.splits)
  have l: "map label (map (toCompletionItem ws p) xs) = map name xs" for xs
    by (induction xs) (simp_all add: toCompletionItem_def Let_def)
  have f: "filter (eligible S') (variables_values vars) =
      filter (\<lambda>v. source v = Global \<or> source v = Component
                \<and> (\<exists>c \<in> set S'. componentName v = Some c)) (variables_values vars)" for S'
    by (rule filter_cong [OF refl]) (rule e)
  have "set (filter (eligible S) (variables_values vars)) =
        {v \<in> set (variables_values vars). source v = Global}
      \<union> {v \<in> set (variables_values vars).
           source v = Component \<and> (\<exists>c \<in> set S. componentName v = Some c)}"
    unfolding f by auto
  moreover have "map label (provideCompletionItems ws vars doc p) =
         map name (filter (\<lambda>v. source v = Global \<or> source v = Component
              \<and> (\<exists>c \<in> set (getCurrentComponentImports doc). componentName v = Some c))
            (variables_values vars))"
    if "isVarPattern p \<or> isDirectPattern p \<or> isSvelteAttributePattern p"
  proof -
    from that have "provideCompletionItems ws vars doc p =
        map (toCompletionItem ws p)
          (filter (eligible (getCurrentComponentImports doc)) (variables_values vars))"
      by (auto simp: provideCompletionItems_def Let_def)
    then show ?thesis by (simp only: l f)
  qed
  ultimately show ?thesis by blast
qed

theorem completion_filter_law_witness:
  "named_components demo_table
   \<and> set (filter (eligible [''Button'']) (variables_values demo_table)) = {gap_var, button_var}
   \<and> {v \<in> set (variables_values demo_table). source v = Global} = {gap_var}
   \<and> {v \<in> set (variables_values demo_table).
        source v = Component \<and> (\<exists>c \<in> set [''Button'']. componentName v = Some c)} = {button_var}"
proof -
  have n: "named_components demo_table"
    by (simp add: named_components_def demo_table_def variables_values_def gap_var_def
        button_var_def card_var_def)
  have g: "{v \<in> set (variables_values demo_table). source v = Global} = {gap_var}"
    by (auto simp: demo_table_def variables_values_def gap_var_def button_var_def card_var_def)
  have c: "{v \<in> set (variables_values demo_table).
        source v = Component \<and> (\<exists>c \<in> set [''Button'']. componentName v = Some c)} = {button_var}"
    by (auto simp: demo_table_def variables_values_def gap_var_def button_var_def card_var_def)
  from completion_filter_law [OF n, of "[''Button'']"] n g c show ?thesis by auto
qed

section \<open>What a rebuild stores for a name\<close>

lemma find_last:
  assumes "P f" and "\<And>g. g \<in> set js2 \<Longrightarrow> \<not> P g"
  shows "List.find P (rev (js1 @ f # js2)) = Some f"
proof -
  from assms(2) have "List.find P (rev js2) = None" by (simp add: find_None_iff)
  with assms(1) show ?thesis by (simp add: find_append_iff)
qed

lemma find_first:
  assumes "P f" and "\<And>g. g \<in> set js1 \<Longrightarrow> \<not> P g"
  shows "List.find P (js1 @ f # js2) = Some f"
proof -
  from assms(2) have "List.find P js1 = None" by (simp add: find_None_iff)
  with assms(1) show ?thesis by (simp add: find_append_iff)
qed

lemma find_nowhere:
  assumes "\<And>g. g \<in> set js \<Longrightarrow> \<not> P g"
  shows "List.find P js = None" and "List.find P (rev js) = None"
  using assms by (simp_all add: find_None_iff)

lemma find_somewhere:
  assumes "x \<in> set xs" and "P x"
  shows "\<exists>y. List.find P xs = Some y \<and> P y \<and> y \<in> set xs"
proof (cases "List.find P xs")
  case None
  with assms show ?thesis by (simp add: find_None_iff)
next
  case (Some y)
  then show ?thesis by (auto simp: find_Some_iff)
qed

text \<open>
  The last component file with a tag for a name decides; without one, the last
  stylesheet with an \<^verbatim>\<open>@property\<close> rule for it; without one, the first stylesheet with
  a plain declaration of it.
\<close>

lemma rebuild_last_tag:
  assumes "svelteJobs ws = js1 @ f # js2" and "tagIn ws f n = Some d"
    and "\<And>g. g \<in> set js2 \<Longrightarrow> tagIn ws g n = None"
  shows "map_of (updateVariables ws vars0) n = Some (tagVariable f n d)"
proof -
  have "List.find (\<lambda>f. tagIn ws f n \<noteq> None) (rev (svelteJobs ws)) = Some f"
    unfolding assms(1) by (rule find_last) (simp_all add: assms)
  then show ?thesis by (simp add: map_of_updateVariables assms(2))
qed

lemma rebuild_last_formal:
  assumes "cssJobs ws = js1 @ f # js2" and "formalIn ws f n = Some cb"
    and "\<And>g. g \<in> set js2 \<Longrightarrow> formalIn ws g n = None"
    and "\<And>g. g \<in> set (svelteJobs ws) \<Longrightarrow> tagIn ws g n = None"
  shows "map_of (updateVariables ws vars0) n = Some (formalVariable f n cb)"
proof -
  have "List.find (\<lambda>f. tagIn ws f n \<noteq> None) (rev (svelteJobs ws)) = None"
    by (rule find_nowhere) (simp add: assms(4))
  moreover have "List.find (\<lambda>f. formalIn ws f n \<noteq> None) (rev (cssJobs ws)) = Some f"
    unfolding assms(1) by (rule find_last) (simp_all add: assms)
  ultimately show ?thesis by (simp add: map_of_updateVariables assms(2))
qed

lemma rebuild_first_plain:
  assumes "cssJobs ws = js1 @ f # js2" and "plainIn ws f n = Some comment"
    and "\<And>g. g \<in> set js1 \<Longrightarrow> plainIn ws g n = None"
    and "\<And>g. g \<in> set (cssJobs ws) \<Longrightarrow> formalIn ws g n = None"
    and "\<And>g. g \<in> set (svelteJobs ws) \<Longrightarrow> tagIn ws g n = None"
  shows "map_of (updateVariables ws vars0) n = Some (plainVariable f n comment)"
proof -
  have "List.find (\<lambda>f. tagIn ws f n \<noteq> None) (rev (svelteJobs ws)) = None"
    by (rule find_nowhere) (simp add: assms(5))
  moreover have "List.find (\<lambda>f. formalIn ws f n \<noteq> None) (rev (cssJobs ws)) = None"
    by (rule find_nowhere) (simp add: assms(4))
  moreover have "List.find (\<lambda>f. plainIn ws f n \<noteq> None) (cssJobs ws) = Some f"
    unfolding assms(1) by (rule find_first) (simp_all add: assms)
  ultimately show ?thesis by (simp add: map_of_updateVariables assms(2))
qed


lemma rebuild_some_formal:
  assumes "f \<in> set (cssJobs ws)" and "formalIn ws f n \<noteq> None"
    and "\<And>g. g \<in> set (svelteJobs ws) \<Longrightarrow> tagIn ws g n = None"
  shows "\<exists>g cb. g \<in> set (cssJobs ws) \<and> formalIn ws g n = Some cb
    \<and> map_of (updateVariables ws vars0) n = Some (formalVariable g n cb)"
proof -
  have t: "List.find (\<lambda>f. tagIn ws f n \<noteq> None) (rev (svelteJobs ws)) = None"
    by (rule find_nowhere) (simp add: assms(3))
  from assms have "f \<in> set (rev (cssJobs ws))" by simp
  from find_somewhere [OF this, of "\<lambda>f. formalIn ws f n \<noteq> None"] assms(2)
  obtain g where g: "List.find (\<lambda>f. formalIn ws f n \<noteq> None) (rev (cssJobs ws)) = Some g"
    "formalIn ws g n \<noteq> None" "g \<in> set (cssJobs ws)" by auto
  then obtain cb where cb: "formalIn ws g n = Some cb" by auto
  with g(1) t have "map_of (updateVariables ws vars0) n = Some (formalVariable g n cb)"
    by (simp add: map_of_updateVariables)
  with g(3) cb show ?thesis by blast
qed

section \<open>Formal declarations before plain ones\<close>

lemma override_jobs:
  "cssJobs override_ws = [''/app/1.css'', ''/app/2.css'']"
  "svelteJobs override_ws = [''/lib/Pad.svelte'']"
  by (simp_all add: cssJobs_def cssFiles_def importantCssIncludes_def svelteJobs_def
      svelteFiles_def importantSvelteIncludes_def override_ws_def)

lemma override_pad:
  "formalIn override_ws ''/app/1.css'' ''--pad'' = Some ('' p '', '' x '')"
  "plainIn override_ws ''/app/1.css'' ''--pad'' = Some None"
  "tagIn override_ws ''/lib/Pad.svelte'' ''--pad'' = Some ''from tag''"
  "trim ''from tag'' = ''from tag''"
  "path_basename ''/lib/Pad.svelte'' ''.svelte'' = ''Pad''"
  by code_simp+

lemma override_hue:
  "formalIn override_ws ''/app/1.css'' ''--hue'' = Some ('' h '', '' y '')"
  "plainIn override_ws ''/app/1.css'' ''--hue'' = Some None"
  "formalIn override_ws ''/app/2.css'' ''--hue'' = Some ('' later '', '' z '')"
  "tagIn override_ws ''/lib/Pad.svelte'' ''--hue'' = None"
  "propertyDescription '' later '' '' z '' =
     ''later'' @ [CHR 0x0A] @ ''```css'' @ [CHR 0x0A] @ ''```''"
  by code_simp+

text \<open>
  C1, as the code has it. The claim says that for a stylesheet with an \<^verbatim>\<open>@property\<close> rule
  and a plain declaration of one name, the table of the rebuild maps the name to a
  variable of origin Global built from that rule. The entry of a name is replaced by
  every later unconditional \<^verbatim>\<open>set\<close>: \<open>1.css\<close> has a rule and a plain declaration of
  \<open>--pad\<close> and of \<open>--hue\<close>; the component file \<open>Pad.svelte\<close> has a tag for \<open>--pad\<close>, and the
  rebuilt table maps \<open>--pad\<close> to a variable of origin Component; the stylesheet \<open>2.css\<close>,
  processed later, has a rule for \<open>--hue\<close>, and the rebuilt table maps \<open>--hue\<close> to the
  variable built from the rule of \<open>2.css\<close>.
\<close>

theorem formal_declaration_counterexample:
  "cssJobs override_ws = [''/app/1.css'', ''/app/2.css'']
   \<and> formalIn override_ws ''/app/1.css'' ''--pad'' = Some ('' p '', '' x '')
   \<and> plainIn override_ws ''/app/1.css'' ''--pad'' = Some None
   \<and> map_of (updateVariables override_ws []) ''--pad'' =
       Some \<lparr>name = ''--pad'', description = Some ''from tag'', source = Component,
             componentName = Some ''Pad'', filePath = ''/lib/Pad.svelte''\<rparr>
   \<and> formalIn override_ws ''/app/1.css'' ''--hue'' = Some ('' h '', '' y '')
   \<and> plainIn override_ws ''/app/1.css'' ''--hue'' = Some None
   \<and> map_of (updateVariables override_ws []) ''--hue'' =
       Some \<lparr>name = ''--hue'',
             description = Some (''later'' @ [CHR 0x0A] @ ''```css'' @ [CHR 0x0A] @ ''```''),
             source = Global, componentName = None, filePath = ''/app/2.css''\<rparr>"
proof -
  have "map_of (updateVariables override_ws []) ''--pad'' =
      Some (tagVariable ''/lib/Pad.svelte'' ''--pad'' ''from tag'')"
  proof (rule rebuild_last_tag)
    show "svelteJobs override_ws = [] @ ''/lib/Pad.svelte'' # []"
      by (simp add: override_jobs)
    show "tagIn override_ws ''/lib/Pad.svelte'' ''--pad'' = Some ''from tag''"
      by (rule override_pad)
    show "\<And>g. g \<in> set [] \<Longrightarrow> tagIn override_ws g ''--pad'' = None"
      by simp
  qed
  moreover have "map_of (updateVariables override_ws []) ''--hue'' =
      Some (formalVariable ''/app/2.css'' ''--hue'' ('' later '', '' z ''))"
  proof (rule rebuild_last_formal)
    show "cssJobs override_ws = [''/app/1.css''] @ ''/app/2.css'' # []"
      by (simp add: override_jobs)
    show "formalIn override_ws ''/app/2.css'' ''--hue'' = Some ('' later '', '' z '')"
      by (rule override_hue)
    show "\<And>g. g \<in> set [] \<Longrightarrow> formalIn override_ws g ''--hue'' = None"
      by simp
    show "\<And>g. g \<in> set (svelteJobs override_ws) \<Longrightarrow> tagIn override_ws g ''--hue'' = None"
      by (auto simp: override_jobs override_hue)
  qed
  ultimately show ?thesis
    by (simp add: tagVariable_def formalVariable_def override_jobs override_pad override_hue)
qed

text \<open>
  C1, amended. When the text of a stylesheet has an \<^verbatim>\<open>@property\<close> rule for a name (the
  last one, with comment \<open>comment\<close> and body \<open>body\<close>), then after the file is processed
  the table maps the name to a variable of origin Global whose description is built
  from that comment and the metadata of that body: whatever plain declarations of the
  name the text has, and whatever the table held for the name before. In the rebuilt
  table, when no component file has a tag for the name, the name maps to a variable of
  origin Global whose description is built from an \<^verbatim>\<open>@property\<close> rule for it, never from
  a plain declaration, wherever the plain declarations stand; the rule is the one of
  this file when also no stylesheet processed later has one for the name.
\<close>

theorem formal_declaration_wins:
  assumes "readFile ws f = Some content"
    and "formalDeclaration content n = Some (comment, body)"
  shows "map_of (processCssFile ws f vars) n =
        Some \<lparr>name = n, description = Some (propertyDescription comment body),
              source = Global, componentName = None, filePath = f\<rparr>
    \<and> (f \<in> set (cssJobs ws) \<and> (\<forall>g \<in> set (svelteJobs ws). tagIn ws g n = None) \<longrightarrow>
        (\<exists>g comment' body'. g \<in> set (cssJobs ws) \<and> formalIn ws g n = Some (comment', body')
          \<and> map_of (updateVariables ws vars0) n =
            Some \<lparr>name = n, description = Some (propertyDescription comment' body'),
                  source = Global, componentName = None, filePath = g\<rparr>))
    \<and> (cssJobs ws = js1 @ f # js2
        \<and> (\<forall>g \<in> set js2. formalIn ws g n = None)
        \<and> (\<forall>g \<in> set (svelteJobs ws). tagIn ws g n = None) \<longrightarrow>
        map_of (updateVariables ws vars0) n =
          Some \<lparr>name = n, description = Some (propertyDescription comment body),
                source = Global, componentName = None, filePath = f\<rparr>)"
proof -
  from assms have fi: "formalIn ws f n = Some (comment, body)"
    by (simp add: formalIn_def)
  then have "map_of (processCssFile ws f vars) n = Some (formalVariable f n (comment, body))"
    by (simp add: map_of_processCssFile)
  moreover have "\<exists>g comment' body'. g \<in> set (cssJobs ws)
      \<and> formalIn ws g n = Some (comment', body')
      \<and> map_of (updateVariables ws vars0) n = Some (formalVariable g n (comment', body'))"
    if "f \<in> set (cssJobs ws)" "\<forall>g \<in> set (svelteJobs ws). tagIn ws g n = None"
  proof -
    from that fi obtain g cb where g: "g \<in> set (cssJobs ws)" "formalIn ws g n = Some cb"
      "map_of (updateVariables ws vars0) n = Some (formalVariable g n cb)"
      using rebuild_some_formal [of f ws n vars0] by auto
    obtain comment' body' where "cb = (comment', body')" by (cases cb)
    with g show ?thesis by blast
  qed
  moreover have "map_of (updateVariables ws vars0) n = Some (formalVariable f n (comment, body))"
    if "cssJobs ws = js1 @ f # js2" "\<forall>g \<in> set js2. formalIn ws g n = None"
      "\<forall>g \<in> set (svelteJobs ws). tagIn ws g n = None"
    using that by (intro rebuild_last_formal [OF _ fi]) auto
  ultimately show ?thesis by (simp add: formalVariable_def)
qed

lemma demo_jobs:
  "cssJobs demo_ws = [''/app/a.css'', ''/app/gone.css'', ''/app/b.css'']"
  "svelteJobs demo_ws = [''/lib/Button.svelte'']"
  by (simp_all add: cssJobs_def cssFiles_def importantCssIncludes_def svelteJobs_def
      svelteFiles_def importantSvelteIncludes_def demo_ws_def)

lemma demo_files:
  "readFile demo_ws ''/app/a.css'' = Some brand_css"
  "readFile demo_ws ''/app/gone.css'' = None"
  "readFile demo_ws ''/app/b.css'' = Some bare_css"
  "readFile demo_ws ''/lib/Button.svelte'' = Some button_svelte"
  by (simp_all add: demo_ws_def)

lemma brand_declarations:
  "formalDeclaration brand_css ''--brand'' = Some ('' Brand color '', brand_body)"
  "plainDeclaration brand_css ''--brand'' = Some None"
  "formalDeclaration bare_css ''--brand'' = None"
  "tagDeclaration button_svelte ''--brand'' = None"
  by code_simp+

lemma brand_description:
  "propertyDescription '' Brand color '' brand_body =
     ''Brand color'' @ [CHR 0x0A] @ ''```css'' @ [CHR 0x0A] @ ''syntax: <color>'' @ [CHR 0x0A]
       @ ''inherits: false'' @ [CHR 0x0A] @ ''initial-value: red'' @ [CHR 0x0A] @ ''```''"
  by code_simp

theorem formal_declaration_wins_witness:
  "readFile demo_ws ''/app/a.css'' = Some brand_css
   \<and> formalDeclaration brand_css ''--brand'' = Some ('' Brand color '', brand_body)
   \<and> plainDeclaration brand_css ''--brand'' = Some None
   \<and> map_of (processCssFile demo_ws ''/app/a.css'' []) ''--brand'' =
       Some \<lparr>name = ''--brand'',
             description = Some (''Brand color'' @ [CHR 0x0A] @ ''```css'' @ [CHR 0x0A]
               @ ''syntax: <color>'' @ [CHR 0x0A] @ ''inherits: false'' @ [CHR 0x0A]
               @ ''initial-value: red'' @ [CHR 0x0A] @ ''```''),
             source = Global, componentName = None, filePath = ''/app/a.css''\<rparr>
   \<and> map_of (updateVariables demo_ws []) ''--brand'' =
       Some \<lparr>name = ''--brand'',
             description = Some (''Brand color'' @ [CHR 0x0A] @ ''```css'' @ [CHR 0x0A]
               @ ''syntax: <color>'' @ [CHR 0x0A] @ ''inherits: false'' @ [CHR 0x0A]
               @ ''initial-value: red'' @ [CHR 0x0A] @ ''```''),
             source = Global, componentName = None, filePath = ''/app/a.css''\<rparr>"
proof -
  have jobs: "cssJobs demo_ws = [] @ ''/app/a.css'' # [''/app/gone.css'', ''/app/b.css'']"
    by (simp add: demo_jobs)
  have later: "\<forall>g \<in> set [''/app/gone.css'', ''/app/b.css'']. formalIn demo_ws g ''--brand'' = None"
    by (simp add: formalIn_def demo_files brand_declarations)
  have tags: "\<forall>g \<in> set (svelteJobs demo_ws). tagIn demo_ws g ''--brand'' = None"
    by (simp add: demo_jobs tagIn_def demo_files brand_declarations)
  from formal_declaration_wins [OF demo_files(1) brand_declarations(1),
      of "[]" "[]" "[]" "[''/app/gone.css'', ''/app/b.css'']"] jobs later tags
  show ?thesis
    by (simp add: demo_files brand_declarations brand_description)
qed

section \<open>A tag line in a text\<close>

text \<open>
  A line \<^verbatim>\<open>@cssprop --w - d\<close> is matched as a whole: the name is \<open>--w\<close> and the
  description is \<open>d\<close>, up to the end of the line.
\<close>

lemma run_Star_greedy_append:
  assumes "\<forall>c \<in> set w. p c" and "s = [] \<or> \<not> p (hd s)" and "run k s caps = Some r"
  shows "run (R (Star True p) # k) (w @ s) caps = Some r"
  using assms(1)
proof (induction w)
  case Nil
  from assms(2,3) show ?case
    by (subst run.simps(6)) (auto simp del: run.simps split: list.splits)
next
  case (Cons x xs)
  then have "run (R (Star True p) # k) (xs @ s) caps = Some r" and "p x" by simp_all
  then show ?case
    by (subst run.simps(6)) (simp del: run.simps)
qed

lemma run_CSSPROP_mismatch:
  "c \<noteq> CHR ''@'' \<Longrightarrow> run [R CSSPROP_DOC_PATTERN] (c # u) caps = None"
  by (simp add: CSSPROP_DOC_PATTERN_def)

lemma exec_CSSPROP_skip:
  "CHR ''@'' \<notin> set pre \<Longrightarrow> exec CSSPROP_DOC_PATTERN (pre @ t) = exec CSSPROP_DOC_PATTERN t"
proof (induction pre)
  case Nil
  show ?case by simp
next
  case (Cons c pre)
  then have "c \<noteq> CHR ''@''" and ih: "exec CSSPROP_DOC_PATTERN (pre @ t) = exec CSSPROP_DOC_PATTERN t"
    by auto
  have "exec CSSPROP_DOC_PATTERN ((c # pre) @ t) = exec CSSPROP_DOC_PATTERN (pre @ t)"
    by (subst exec.simps) (simp add: run_CSSPROP_mismatch [OF \<open>c \<noteq> CHR ''@''\<close>] del: exec.simps)
  with ih show ?case by simp
qed

lemma run_tag_line:
  assumes w: "w \<noteq> []" "\<forall>c \<in> set w. is_name_char c"
    and d: "d \<noteq> []" "\<forall>c \<in> set d. c \<noteq> CHR 0x0A" "\<not> is_space (hd d)"
    and post: "post = [] \<or> hd post = CHR 0x0A"
  shows "run [R CSSPROP_DOC_PATTERN] (''@cssprop --'' @ w @ '' - '' @ d @ post) Map.empty
    = Some (post, [1 \<mapsto> ''--'' @ w, 2 \<mapsto> d])"
proof -
  obtain x xs where wx: "w = x # xs" using w(1) by (cases w) auto
  obtain y ys where dy: "d = y # ys" using d(1) by (cases d) auto
  have y: "y \<noteq> CHR 0x0A" "\<not> is_space y" using d dy by auto
  let ?k2 = "[Close 2 (d @ post)]"
  let ?caps1 = "[1 \<mapsto> ''--'' @ w]"
  have g2: "run (R (Star True (\<lambda>c. c \<noteq> CHR 0x0A)) # ?k2) (ys @ post) ?caps1
      = Some (post, [1 \<mapsto> ''--'' @ w, 2 \<mapsto> d])"
  proof (rule run_Star_greedy_append)
    show "\<forall>c \<in> set ys. c \<noteq> CHR 0x0A" using d(2) dy by simp
    show "post = [] \<or> \<not> hd post \<noteq> CHR 0x0A" using post by simp
    show "run ?k2 post ?caps1 = Some (post, [1 \<mapsto> ''--'' @ w, 2 \<mapsto> d])"
      by simp
  qed
  let ?tail = "'' - '' @ d @ post"
  let ?k1 = "[Close 1 (''--'' @ w @ ?tail),
      R (seqs [Star True is_space, lit ''-'', Star True is_space,
           Group 2 (plus (\<lambda>c. c \<noteq> CHR 0x0A))])]"
  have sp: "is_space CHR '' ''" "\<not> is_space CHR ''-''" "\<not> is_name_char CHR '' ''"
    by (simp_all add: is_space_def is_name_char_def is_word_def)
  have k1: "run ?k1 ?tail Map.empty = Some (post, [1 \<mapsto> ''--'' @ w, 2 \<mapsto> d])"
    using g2 y sp
    by (simp add: plus_def dy del: run.simps(6);
        (subst run.simps(6), simp del: run.simps(6))+)
  have g1: "run (R (Star True is_name_char) # ?k1) (xs @ ?tail) Map.empty
      = Some (post, [1 \<mapsto> ''--'' @ w, 2 \<mapsto> d])"
  proof (rule run_Star_greedy_append)
    show "\<forall>c \<in> set xs. is_name_char c" using w(2) wx by simp
    show "?tail = [] \<or> \<not> is_name_char (hd ?tail)" using sp by simp
    show "run ?k1 ?tail Map.empty = Some (post, [1 \<mapsto> ''--'' @ w, 2 \<mapsto> d])" by (rule k1)
  qed
  have x: "is_name_char x" using w(2) wx by simp
  show ?thesis
    using g1 x sp
    by (simp add: CSSPROP_DOC_PATTERN_def plus_def wx del: run.simps(6);
        (subst run.simps(6), simp del: run.simps(6))+)
qed

lemma exec_tag_line:
  assumes "w \<noteq> []" "\<forall>c \<in> set w. is_name_char c"
    and "d \<noteq> []" "\<forall>c \<in> set d. c \<noteq> CHR 0x0A" "\<not> is_space (hd d)"
    and "post = [] \<or> hd post = CHR 0x0A"
    and "CHR ''@'' \<notin> set pre"
  shows "exec CSSPROP_DOC_PATTERN (pre @ ''@cssprop --'' @ w @ '' - '' @ d @ post)
    = Some \<lparr>whole = ''@cssprop --'' @ w @ '' - '' @ d,
             groups = [1 \<mapsto> ''--'' @ w, 2 \<mapsto> d], rest = post\<rparr>"
proof -
  define a where "a = ''@cssprop --'' @ w @ '' - '' @ d"
  have t: "''@cssprop --'' @ w @ '' - '' @ d @ post = a @ post"
    by (simp add: a_def)
  have r: "run [R CSSPROP_DOC_PATTERN] (a @ post) Map.empty
      = Some (post, [1 \<mapsto> ''--'' @ w, 2 \<mapsto> d])"
    using run_tag_line [OF assms(1-6)] unfolding t .
  have "exec CSSPROP_DOC_PATTERN (a @ post)
      = Some \<lparr>whole = take (length (a @ post) - length post) (a @ post),
               groups = [1 \<mapsto> ''--'' @ w, 2 \<mapsto> d], rest = post\<rparr>"
    by (subst exec.simps) (simp only: r option.case prod.case)
  then have "exec CSSPROP_DOC_PATTERN (a @ post)
      = Some \<lparr>whole = a, groups = [1 \<mapsto> ''--'' @ w, 2 \<mapsto> d], rest = post\<rparr>"
    by simp
  with exec_CSSPROP_skip [OF assms(7), of "a @ post"] show ?thesis
    unfolding t by (simp add: a_def)
qed

lemma matchAll_step:
  "exec r s = Some m \<Longrightarrow> whole m \<noteq> [] \<Longrightarrow> matchAll r s = m # matchAll r (rest m)"
  by (subst matchAll.simps) simp

text \<open>
  In a text with such a line, no \<open>@\<close> before it, and the end of the text or a line
  feed after it, the line is a tag of the text; it is the declaration of its name
  unless the rest of the text has another tag for that name.
\<close>

lemma tagDeclaration_tag_line:
  assumes "w \<noteq> []" "\<forall>c \<in> set w. is_name_char c"
    and "d \<noteq> []" "\<forall>c \<in> set d. c \<noteq> CHR 0x0A" "\<not> is_space (hd d)"
    and "post = [] \<or> hd post = CHR 0x0A"
    and "CHR ''@'' \<notin> set pre"
  shows "tagDeclaration (pre @ ''@cssprop --'' @ w @ '' - '' @ d @ post) (''--'' @ w)
    = (case tagDeclaration post (''--'' @ w) of None \<Rightarrow> Some d | Some d' \<Rightarrow> Some d')"
proof -
  let ?m = "\<lparr>whole = ''@cssprop --'' @ w @ '' - '' @ d,
             groups = [1 \<mapsto> ''--'' @ w, 2 \<mapsto> d], rest = post\<rparr>"
  have "matchAll CSSPROP_DOC_PATTERN (pre @ ''@cssprop --'' @ w @ '' - '' @ d @ post)
      = ?m # matchAll CSSPROP_DOC_PATTERN (rest ?m)"
    by (rule matchAll_step [OF exec_tag_line [OF assms]]) simp
  then show ?thesis
    by (simp add: tagDeclaration_def find_append_iff split: option.splits)
qed

section \<open>Documentation tags\<close>




section \<open>A property rule without metadata\<close>

text \<open>
  C7, as the code has it. The claim says that for an \<^verbatim>\<open>@property\<close> rule whose body has none
  of the three fields the description is the comment text alone, with no metadata block.
  The code always appends the two fence lines: for the rule
  \<^verbatim>\<open>/** Spacing unit */ @property --gap { }\<close> the description is the trimmed comment, a
  line \<^verbatim>\<open>```css\<close> and a line \<^verbatim>\<open>```\<close>, which is neither the comment text nor the trimmed
  comment text. A rule with nothing between its braces is not matched by the pattern
  and yields no variable.
\<close>

theorem bare_property_counterexample:
  "formalDeclaration bare_css ''--gap'' = Some ('' Spacing unit '', '' '')
   \<and> \<not> test SYNTAX_PATTERN '' '' \<and> \<not> test INHERITS_PATTERN '' ''
   \<and> \<not> test INITIAL_VALUE_PATTERN '' ''
   \<and> map_option description (map_of (updateVariables demo_ws []) ''--gap'') =
       Some (Some (''Spacing unit'' @ [CHR 0x0A] @ ''```css'' @ [CHR 0x0A] @ ''```''))
   \<and> map_option description (map_of (updateVariables demo_ws []) ''--gap'')
       \<noteq> Some (Some '' Spacing unit '')
   \<and> map_option description (map_of (updateVariables demo_ws []) ''--gap'')
       \<noteq> Some (Some ''Spacing unit'')
   \<and> formalDeclaration ''/** Spacing unit */ @property --gap {}'' ''--gap'' = None"
proof -
  have d: "formalDeclaration bare_css ''--gap'' = Some ('' Spacing unit '', '' '')"
    "\<not> test SYNTAX_PATTERN '' ''" "\<not> test INHERITS_PATTERN '' ''"
    "\<not> test INITIAL_VALUE_PATTERN '' ''"
    "tagDeclaration button_svelte ''--gap'' = None"
    "propertyDescription '' Spacing unit '' '' '' =
       ''Spacing unit'' @ [CHR 0x0A] @ ''```css'' @ [CHR 0x0A] @ ''```''"
    "formalDeclaration ''/** Spacing unit */ @property --gap {}'' ''--gap'' = None"
    by code_simp+
  have "map_of (updateVariables demo_ws []) ''--gap'' =
      Some (formalVariable ''/app/b.css'' ''--gap'' ('' Spacing unit '', '' ''))"
  proof (rule rebuild_last_formal)
    show "cssJobs demo_ws = [''/app/a.css'', ''/app/gone.css''] @ ''/app/b.css'' # []"
      by (simp add: demo_jobs)
    show "formalIn demo_ws ''/app/b.css'' ''--gap'' = Some ('' Spacing unit '', '' '')"
      by (simp add: formalIn_def demo_files d)
    show "\<And>g. g \<in> set [] \<Longrightarrow> formalIn demo_ws g ''--gap'' = None"
      by simp
    show "\<And>g. g \<in> set (svelteJobs demo_ws) \<Longrightarrow> tagIn demo_ws g ''--gap'' = None"
      by (simp add: demo_jobs tagIn_def demo_files d)
  qed
  then show ?thesis
    by (simp add: formalVariable_def d)
qed

text \<open>
  C7, amended. For an \<^verbatim>\<open>@property\<close> rule with a non-empty body that has none of the three
  fields, the table still gets a variable for the name after the file is processed (and
  the rebuilt table has it when no file processed later declares the name by an
  \<^verbatim>\<open>@property\<close> rule or a tag); its description is the trimmed comment followed by an
  empty fenced block (the lines \<^verbatim>\<open>```css\<close> and \<^verbatim>\<open>```\<close>), with no field line in it, and the
  fenced block alone when the trimmed comment is empty.
\<close>

theorem bare_property_description:
  assumes "readFile ws f = Some content"
    and "formalDeclaration content n = Some (comment, body)"
    and "\<not> test SYNTAX_PATTERN body" and "\<not> test INHERITS_PATTERN body"
    and "\<not> test INITIAL_VALUE_PATTERN body"
  shows "map_of (processCssFile ws f vars) n =
        Some \<lparr>name = n,
              description = Some
                (if trim comment = [] then ''```css'' @ [CHR 0x0A] @ ''```''
                 else trim comment @ [CHR 0x0A] @ ''```css'' @ [CHR 0x0A] @ ''```''),
              source = Global, componentName = None, filePath = f\<rparr>
    \<and> (cssJobs ws = js1 @ f # js2
        \<and> (\<forall>g \<in> set js2. formalIn ws g n = None)
        \<and> (\<forall>g \<in> set (svelteJobs ws). tagIn ws g n = None) \<longrightarrow>
        map_of (updateVariables ws vars0) n =
          Some \<lparr>name = n,
                description = Some
                  (if trim comment = [] then ''```css'' @ [CHR 0x0A] @ ''```''
                   else trim comment @ [CHR 0x0A] @ ''```css'' @ [CHR 0x0A] @ ''```''),
                source = Global, componentName = None, filePath = f\<rparr>)"
proof -
  from assms(1,2) have fi: "formalIn ws f n = Some (comment, body)"
    by (simp add: formalIn_def)
  then have "map_of (processCssFile ws f vars) n = Some (formalVariable f n (comment, body))"
    by (simp add: map_of_processCssFile)
  moreover have "map_of (updateVariables ws vars0) n = Some (formalVariable f n (comment, body))"
    if "cssJobs ws = js1 @ f # js2" "\<forall>g \<in> set js2. formalIn ws g n = None"
      "\<forall>g \<in> set (svelteJobs ws). tagIn ws g n = None"
    using that by (intro rebuild_last_formal [OF _ fi]) auto
  moreover from assms(3-5)
  have "propertyDescription comment body =
      (if trim comment = [] then ''```css'' @ [CHR 0x0A] @ ''```''
       else trim comment @ [CHR 0x0A] @ ''```css'' @ [CHR 0x0A] @ ''```'')"
    by (simp add: propertyDescription_def match_group_def test_def filterBoolean_def
        field_line_def)
  ultimately show ?thesis by (simp add: formalVariable_def)
qed

theorem bare_property_description_witness:
  "readFile demo_ws ''/app/b.css'' = Some bare_css
   \<and> formalDeclaration bare_css ''--gap'' = Some ('' Spacing unit '', '' '')
   \<and> \<not> test SYNTAX_PATTERN '' '' \<and> \<not> test INHERITS_PATTERN '' ''
   \<and> \<not> test INITIAL_VALUE_PATTERN '' ''
   \<and> map_of (processCssFile demo_ws ''/app/b.css'' []) ''--gap'' =
       Some \<lparr>name = ''--gap'',
             description = Some (''Spacing unit'' @ [CHR 0x0A] @ ''```css'' @ [CHR 0x0A] @ ''```''),
             source = Global, componentName = None, filePath = ''/app/b.css''\<rparr>
   \<and> map_of (updateVariables demo_ws []) ''--gap'' =
       Some \<lparr>name = ''--gap'',
             description = Some (''Spacing unit'' @ [CHR 0x0A] @ ''```css'' @ [CHR 0x0A] @ ''```''),
             source = Global, componentName = None, filePath = ''/app/b.css''\<rparr>"
proof -
  have d: "formalDeclaration bare_css ''--gap'' = Some ('' Spacing unit '', '' '')"
    "\<not> test SYNTAX_PATTERN '' ''" "\<not> test INHERITS_PATTERN '' ''"
    "\<not> test INITIAL_VALUE_PATTERN '' ''"
    "trim '' Spacing unit '' = ''Spacing unit''"
    "tagDeclaration button_svelte ''--gap'' = None"
    by code_simp+
  have jobs: "cssJobs demo_ws = [''/app/a.css'', ''/app/gone.css''] @ ''/app/b.css'' # []"
    by (simp add: demo_jobs)
  have tags: "\<forall>g \<in> set (svelteJobs demo_ws). tagIn demo_ws g ''--gap'' = None"
    by (simp add: demo_jobs tagIn_def demo_files d)
  from bare_property_description [OF demo_files(3) d(1) d(2) d(3) d(4),
      of "[]" "[''/app/a.css'', ''/app/gone.css'']" "[]" "[]"] d jobs tags
  show ?thesis
    by (simp add: demo_files)
qed

section \<open>Several files declaring one name\<close>

lemma clash_jobs:
  "cssJobs clash_ws = [''/app/one.css'', ''/app/two.css'', ''/app/three.css'']"
  "svelteJobs clash_ws = [''/lib/A.svelte'', ''/lib/B.svelte'']"
  by (simp_all add: cssJobs_def cssFiles_def importantCssIncludes_def svelteJobs_def
      svelteFiles_def importantSvelteIncludes_def clash_ws_def)

lemma clash_hue:
  "formalIn clash_ws ''/app/one.css'' ''--hue'' = Some ('' A '', '' x '')"
  "formalIn clash_ws ''/app/two.css'' ''--hue'' = Some ('' B '', '' y '')"
  "formalIn clash_ws ''/app/three.css'' ''--hue'' = None"
  "plainIn clash_ws ''/app/three.css'' ''--hue'' = Some (Some '' plain '')"
  "tagIn clash_ws ''/lib/A.svelte'' ''--hue'' = None"
  "tagIn clash_ws ''/lib/B.svelte'' ''--hue'' = None"
  "propertyDescription '' B '' '' y '' = ''B'' @ [CHR 0x0A] @ ''```css'' @ [CHR 0x0A] @ ''```''"
  by code_simp+

lemma clash_pad:
  "tagIn clash_ws ''/lib/A.svelte'' ''--pad'' = Some ''one''"
  "tagIn clash_ws ''/lib/B.svelte'' ''--pad'' = Some ''two''"
  "trim ''two'' = ''two''"
  "path_basename ''/lib/B.svelte'' ''.svelte'' = ''B''"
  by code_simp+

text \<open>
  C6, as the code has it. The claim says the last file processed that declares a name
  determines what is stored for it, whatever the kinds of the declarations. A plain
  declaration is stored only when the table has no entry for the name: the stylesheet
  \<open>three.css\<close> is the last file that declares \<open>--hue\<close>, plainly, and the entry is the one
  the \<^verbatim>\<open>@property\<close> rule of \<open>two.css\<close> wrote before.
\<close>

theorem last_writer_counterexample:
  "cssJobs clash_ws = [''/app/one.css'', ''/app/two.css'', ''/app/three.css'']
   \<and> plainIn clash_ws ''/app/three.css'' ''--hue'' = Some (Some '' plain '')
   \<and> tagIn clash_ws ''/lib/A.svelte'' ''--hue'' = None
   \<and> tagIn clash_ws ''/lib/B.svelte'' ''--hue'' = None
   \<and> map_of (updateVariables clash_ws []) ''--hue'' =
       Some \<lparr>name = ''--hue'',
             description = Some (''B'' @ [CHR 0x0A] @ ''```css'' @ [CHR 0x0A] @ ''```''),
             source = Global, componentName = None, filePath = ''/app/two.css''\<rparr>"
proof -
  have "map_of (updateVariables clash_ws []) ''--hue'' =
      Some (formalVariable ''/app/two.css'' ''--hue'' ('' B '', '' y ''))"
  proof (rule rebuild_last_formal)
    show "cssJobs clash_ws = [''/app/one.css''] @ ''/app/two.css'' # [''/app/three.css'']"
      by (simp add: clash_jobs)
    show "formalIn clash_ws ''/app/two.css'' ''--hue'' = Some ('' B '', '' y '')"
      by (rule clash_hue)
    show "\<And>g. g \<in> set [''/app/three.css''] \<Longrightarrow> formalIn clash_ws g ''--hue'' = None"
      by (auto simp: clash_hue)
    show "\<And>g. g \<in> set (svelteJobs clash_ws) \<Longrightarrow> tagIn clash_ws g ''--hue'' = None"
      by (auto simp: clash_jobs clash_hue)
  qed
  then show ?thesis
    by (simp add: formalVariable_def clash_jobs clash_hue)
qed

text \<open>
  C6, amended. Within one rebuild, when several files declare a name by an \<^verbatim>\<open>@cssprop\<close>
  tag or an \<^verbatim>\<open>@property\<close> rule, the entry of the name is the one written by the last of
  them in the traversal order: the tag of the last component file that has one for the
  name (component files come after all stylesheets); without such a file, the
  \<^verbatim>\<open>@property\<close> rule of the last stylesheet that has one for the name. Plain declarations
  of the name, in whatever file, do not replace that entry.
\<close>

theorem last_unconditional_writer_wins:
  "(svelteJobs ws = js1 @ f # js2 \<and> tagIn ws f n = Some d
      \<and> (\<forall>g \<in> set js2. tagIn ws g n = None) \<longrightarrow>
      map_of (updateVariables ws vars0) n =
        Some \<lparr>name = n, description = Some (trim d), source = Component,
              componentName = Some (path_basename f ''.svelte''), filePath = f\<rparr>)
   \<and> ((\<forall>g \<in> set (svelteJobs ws). tagIn ws g n = None)
      \<and> cssJobs ws = js1 @ f # js2 \<and> formalIn ws f n = Some (comment, body)
      \<and> (\<forall>g \<in> set js2. formalIn ws g n = None) \<longrightarrow>
      map_of (updateVariables ws vars0) n =
        Some \<lparr>name = n, description = Some (propertyDescription comment body),
              source = Global, componentName = None, filePath = f\<rparr>)"
proof -
  have "map_of (updateVariables ws vars0) n = Some (tagVariable f n d)"
    if "svelteJobs ws = js1 @ f # js2" "tagIn ws f n = Some d"
      "\<forall>g \<in> set js2. tagIn ws g n = None"
    using that by (intro rebuild_last_tag) auto
  moreover have "map_of (updateVariables ws vars0) n = Some (formalVariable f n (comment, body))"
    if "\<forall>g \<in> set (svelteJobs ws). tagIn ws g n = None" "cssJobs ws = js1 @ f # js2"
      "formalIn ws f n = Some (comment, body)" "\<forall>g \<in> set js2. formalIn ws g n = None"
    using that by (intro rebuild_last_formal) auto
  ultimately show ?thesis
    by (simp add: tagVariable_def formalVariable_def)
qed

theorem last_unconditional_writer_wins_witness:
  "map_of (updateVariables clash_ws []) ''--pad'' =
       Some \<lparr>name = ''--pad'', description = Some ''two'', source = Component,
             componentName = Some ''B'', filePath = ''/lib/B.svelte''\<rparr>
   \<and> map_of (updateVariables clash_ws []) ''--hue'' =
       Some \<lparr>name = ''--hue'',
             description = Some (''B'' @ [CHR 0x0A] @ ''```css'' @ [CHR 0x0A] @ ''```''),
             source = Global, componentName = None, filePath = ''/app/two.css''\<rparr>"
proof -
  have s: "svelteJobs clash_ws = [''/lib/A.svelte''] @ ''/lib/B.svelte'' # []"
    and c: "cssJobs clash_ws = [''/app/one.css''] @ ''/app/two.css'' # [''/app/three.css'']"
    by (simp_all add: clash_jobs)
  have pad: "map_of (updateVariables clash_ws []) ''--pad'' =
       Some \<lparr>name = ''--pad'', description = Some ''two'', source = Component,
             componentName = Some ''B'', filePath = ''/lib/B.svelte''\<rparr>"
    using last_unconditional_writer_wins
      [of clash_ws "[''/lib/A.svelte'']" "''/lib/B.svelte''" "[]" "''--pad''" "''two''" "[]"]
      s clash_pad
    by simp
  have hue: "map_of (updateVariables clash_ws []) ''--hue'' =
       Some \<lparr>name = ''--hue'',
             description = Some (''B'' @ [CHR 0x0A] @ ''```css'' @ [CHR 0x0A] @ ''```''),
             source = Global, componentName = None, filePath = ''/app/two.css''\<rparr>"
    using last_unconditional_writer_wins
      [of clash_ws "[''/app/one.css'']" "''/app/two.css''" "[''/app/three.css'']" "''--hue''" _
        "[]" "'' B ''" "'' y ''"]
      c clash_hue
    by (simp add: clash_jobs)
  from pad hue show ?thesis by simp
qed

end
